theory Spec2Isabelle
  imports Main "HOL-Library.Word" "HOL-Library.Monad_Syntax"
begin

section \<open>Data model of peoplefinder.cpp\<close>

text \<open>
  \<^verbatim>\<open>cv::Point\<close> is a pair of machine integers; the detectors read \<^verbatim>\<open>x\<close> as the row and
  \<^verbatim>\<open>y\<close> as the column. All coordinates of the program stay far below the 32-bit range
  (image coordinates, the constant 1000 and small offsets), so they are modelled as \<open>int\<close>.
  A value-initialised \<^verbatim>\<open>Point()\<close> is \<open>Point 0 0\<close>.
\<close>

datatype Point = Point (px: int) (py: int)

text \<open>Integer division of C++ truncates towards zero.\<close>

definition cdiv :: "int \<Rightarrow> int \<Rightarrow> int" where
  "cdiv a b = sgn a * sgn b * (\<bar>a\<bar> div \<bar>b\<bar>)"

text \<open>
  A \<^verbatim>\<open>vector<Point>\<close> is a list. \<^verbatim>\<open>operator[]\<close> is unchecked in the source; a read outside
  the vector is undefined behaviour, which the model reports as \<open>None\<close>.
\<close>

definition vat :: "Point list \<Rightarrow> int \<Rightarrow> Point option" where
  "vat v i = (if 0 \<le> i \<and> i < int (length v) then Some (v ! nat i) else None)"

text \<open>The members of the class that the modelled functions read or write.\<close>

record PeopleFinder =
  min_range :: "Point list"
  max_range :: "Point list"
  training_path :: string
  bad_skel_flag :: bool

subsection \<open>Range model and classifier\<close>

definition is_within_bound :: "Point \<Rightarrow> int \<Rightarrow> int \<Rightarrow> int \<Rightarrow> int \<Rightarrow> bool" where
  "is_within_bound node lower_x lower_y x_bound y_bound =
     (px node \<ge> lower_x \<and> px node < x_bound \<and> py node \<ge> lower_y \<and> py node < y_bound)"

text \<open>
  Every loop over the eleven features reads index \<open>0..10\<close> of each vector it touches without
  a test, so the function faults exactly when one of the vectors is shorter than 11.
\<close>

definition init_step :: "nat \<Rightarrow> PeopleFinder \<Rightarrow> PeopleFinder" where
  "init_step i pf =
     pf\<lparr>min_range := (min_range pf)[i := Point 1000 1000],
        max_range := (max_range pf)[i := Point 0 0]\<rparr>"

definition init :: "PeopleFinder \<Rightarrow> PeopleFinder option" where
  "init pf =
     (if length (min_range pf) < 11 \<or> length (max_range pf) < 11 then None
      else Some (fold init_step [0..<11] pf))"

definition compare_step :: "Point list \<Rightarrow> nat \<Rightarrow> PeopleFinder \<Rightarrow> PeopleFinder" where
  "compare_step feature_nodes i pf =
     (let n = feature_nodes ! i;
          mn = min_range pf ! i;
          mx = max_range pf ! i;
          mn1 = (if px n \<le> px mn then Point (px n) (py mn) else mn);
          mn2 = (if py n \<le> py mn1 then Point (px mn1) (py n) else mn1);
          mx1 = (if px n \<ge> px mx then Point (px n) (py mx) else mx);
          mx2 = (if py n \<ge> py mx1 then Point (px mx1) (py n) else mx1)
      in pf\<lparr>min_range := (min_range pf)[i := mn2],
            max_range := (max_range pf)[i := mx2]\<rparr>)"

definition train_compare_ranges :: "Point list \<Rightarrow> PeopleFinder \<Rightarrow> PeopleFinder option" where
  "train_compare_ranges feature_nodes pf =
     (if length feature_nodes < 11 \<or> length (min_range pf) < 11 \<or> length (max_range pf) < 11
      then None
      else Some (fold (compare_step feature_nodes) [0..<11] pf))"

text \<open>The box of one feature after one skeleton, coordinate by coordinate.\<close>

definition widen_min :: "Point \<Rightarrow> Point \<Rightarrow> Point" where
  "widen_min n mn =
     Point (if px n \<le> px mn then px n else px mn) (if py n \<le> py mn then py n else py mn)"

definition widen_max :: "Point \<Rightarrow> Point \<Rightarrow> Point" where
  "widen_max n mx =
     Point (if px n \<ge> px mx then px n else px mx) (if py n \<ge> py mx then py n else py mx)"

definition contains :: "PeopleFinder \<Rightarrow> Point list \<Rightarrow> nat \<Rightarrow> bool" where
  "contains pf nodes i =
     is_within_bound (nodes ! i) (px (min_range pf ! i)) (py (min_range pf ! i))
                                 (px (max_range pf ! i)) (py (max_range pf ! i))"

definition score_step :: "PeopleFinder \<Rightarrow> Point list \<Rightarrow> nat \<Rightarrow> int \<Rightarrow> int" where
  "score_step pf nodes i feature_score =
     (if contains pf nodes i then feature_score + 1 else feature_score)"

definition feature_score :: "PeopleFinder \<Rightarrow> Point list \<Rightarrow> int" where
  "feature_score pf nodes = fold (score_step pf nodes) [0..<11] 0"

definition verdict_of :: "int \<Rightarrow> string" where
  "verdict_of score =
     (if score \<ge> 7 then ''Pedestrian''
      else if score \<ge> 3 then ''Something''
      else ''Noise'')"

definition judge_features :: "PeopleFinder \<Rightarrow> Point list \<Rightarrow> string option" where
  "judge_features pf nodes =
     (if length nodes < 11 \<or> length (min_range pf) < 11 \<or> length (max_range pf) < 11
      then None
      else Some (verdict_of (feature_score pf nodes)))"

text \<open>Two range models used as concrete inputs below.\<close>

definition pf_box :: PeopleFinder where
  "pf_box = \<lparr>min_range = replicate 11 (Point 0 0), max_range = replicate 11 (Point 10 10),
             training_path = [], bad_skel_flag = False\<rparr>"

definition pf_single :: PeopleFinder where
  "pf_single = \<lparr>min_range = replicate 11 (Point 5 5), max_range = replicate 11 (Point 5 5),
                training_path = [], bad_skel_flag = False\<rparr>"

subsection \<open>Silhouette images\<close>

text \<open>
  A \<^verbatim>\<open>cv::Mat\<close> of \<^verbatim>\<open>Vec3b\<close> pixels: its size and the colour at (row, column).
  \<^verbatim>\<open>at<Vec3b>(r, c)\<close> outside the matrix is undefined behaviour (\<open>None\<close>).
\<close>

type_synonym Vec3b = "8 word \<times> 8 word \<times> 8 word"

record Mat =
  rows :: nat
  cols :: nat
  data :: "nat \<times> nat \<Rightarrow> Vec3b"

definition at :: "Mat \<Rightarrow> nat \<Rightarrow> nat \<Rightarrow> Vec3b option" where
  "at img r c = (if r < rows img \<and> c < cols img then Some (data img (r, c)) else None)"

definition C_OUTLINE :: Vec3b where
  "C_OUTLINE = (0, 0, 255)"

definition C_INTERIOR :: Vec3b where
  "C_INTERIOR = (64, 0, 0)"

text \<open>
  \<^verbatim>\<open>highlight_pixels\<close> scans the image in row-major order and stores the k-th interior pixel
  at \<^verbatim>\<open>shape_pixels[k]\<close> and the m-th outline pixel at \<^verbatim>\<open>outline_pixels[m]\<close>. The two vectors
  were created with 8192 and 4096 value-initialised entries, so the entries after the
  stored ones are \<open>Point 0 0\<close>; a write past the end is undefined behaviour.
\<close>

definition class_pixels :: "Mat \<Rightarrow> Vec3b \<Rightarrow> Point list" where
  "class_pixels img colour =
     concat (map (\<lambda>i. concat (map (\<lambda>j. if data img (i, j) = colour
                                        then [Point (int i) (int j)] else [])
                                  [0..<cols img]))
                 [0..<rows img])"

definition highlight_pixels :: "Mat \<Rightarrow> (Point list \<times> Point list) option" where
  "highlight_pixels contoursonly =
     (let shape = class_pixels contoursonly C_INTERIOR;
          outline = class_pixels contoursonly C_OUTLINE
      in if length shape > 8192 \<or> length outline > 4096 then None
         else Some (shape @ replicate (8192 - length shape) (Point 0 0),
                    outline @ replicate (4096 - length outline) (Point 0 0)))"

subsection \<open>Landmark detectors\<close>

text \<open>
  Every \<^verbatim>\<open>while\<close> loop of a detector advances an index into \<^verbatim>\<open>shape_pixels\<close>; it is a
  recursive function on that index, which stops with \<open>None\<close> when the index leaves the
  vector.
\<close>

function head_loop :: "Point list \<Rightarrow> int \<Rightarrow> int \<Rightarrow> Point \<Rightarrow> int \<Rightarrow> (Point \<times> int) option" where
  "head_loop shape_pixels threshold i headnode index_head =
     (case vat shape_pixels i of
        None \<Rightarrow> None
      | Some p \<Rightarrow>
          if p \<noteq> Point 0 0 \<and> px p < px headnode + threshold
          then (if px p < px headnode
                then head_loop shape_pixels threshold (i + 1) p i
                else head_loop shape_pixels threshold (i + 1) headnode index_head)
          else Some (headnode, index_head))"
  by pat_completeness auto
termination
  by (relation "measure (\<lambda>(sp, t, i, h, ih). nat (int (length sp) - i))")
     (auto simp: vat_def split: if_splits)

declare head_loop.simps [simp del]

definition find_head_feature :: "Point list \<Rightarrow> int \<Rightarrow> int \<Rightarrow> (Point \<times> int) option" where
  "find_head_feature shape_pixels threshold index_head =
     (case head_loop shape_pixels threshold 0 (Point 1000 1000) index_head of
        None \<Rightarrow> None
      | Some (headnode, index_head') \<Rightarrow>
          Some (Point (px headnode + threshold) (py headnode), index_head'))"

text \<open>The skip loop of the torso and foot detectors (lines 351 and 486).\<close>

function skip_above :: "Point list \<Rightarrow> int \<Rightarrow> int \<Rightarrow> int option" where
  "skip_above shape_pixels bound i =
     (case vat shape_pixels i of
        None \<Rightarrow> None
      | Some p \<Rightarrow>
          if px p < bound \<and> p \<noteq> Point 0 0
          then skip_above shape_pixels bound (i + 1)
          else Some i)"
  by pat_completeness auto
termination
  by (relation "measure (\<lambda>(sp, b, i). nat (int (length sp) - i))")
     (auto simp: vat_def split: if_splits)

declare skip_above.simps [simp del]

function torso_loop ::
  "Point list \<Rightarrow> int \<Rightarrow> int \<Rightarrow> Point \<Rightarrow> int \<Rightarrow> int \<Rightarrow> Point \<Rightarrow> int \<Rightarrow> (int \<times> Point \<times> int) option"
where
  "torso_loop shape_pixels lower_bound_x i current_row current_dist shortest_dist
              best_fit_node index_torso =
     (case vat shape_pixels i of
        None \<Rightarrow> None
      | Some p \<Rightarrow>
          if p \<noteq> Point 0 0 \<and> px p < lower_bound_x
          then (case vat shape_pixels (i + 1) of
                  None \<Rightarrow> None
                | Some q \<Rightarrow>
                    if px q = px current_row
                    then torso_loop shape_pixels lower_bound_x (i + 1) current_row
                           (current_dist + 1) shortest_dist best_fit_node index_torso
                    else if current_dist < shortest_dist
                    then torso_loop shape_pixels lower_bound_x (i + 1) q 0 current_dist p i
                    else torso_loop shape_pixels lower_bound_x (i + 1) q 0 shortest_dist
                           best_fit_node index_torso)
          else Some (shortest_dist, best_fit_node, index_torso))"
  by pat_completeness auto
termination
  by (relation "measure (\<lambda>(sp, l, i, r). nat (int (length sp) - i))")
     (auto simp: vat_def split: if_splits)

declare torso_loop.simps [simp del]

text \<open>
  \<^verbatim>\<open>index_torso\<close> is an out-parameter: the last argument is the value the caller's variable
  holds at the call (0 in \<^verbatim>\<open>create_skeleton\<close>), the second component of the result is its
  value at the return.
\<close>

definition find_torso_feature ::
  "Point list \<Rightarrow> int \<Rightarrow> Point \<Rightarrow> int \<Rightarrow> int \<Rightarrow> (Point \<times> int) option" where
  "find_torso_feature shape_pixels threshold head_feature index_head index_torso =
     (case vat shape_pixels 0 of
        None \<Rightarrow> None
      | Some first \<Rightarrow>
          let lower_bound_x = (if 48 < px head_feature then px head_feature + 1 else 48) in
          (case skip_above shape_pixels (px head_feature + threshold) index_head of
             None \<Rightarrow> None
           | Some i \<Rightarrow>
               (case vat shape_pixels i of
                  None \<Rightarrow> None
                | Some start \<Rightarrow>
                    (case torso_loop shape_pixels lower_bound_x i start 0 1000 start index_torso of
                       None \<Rightarrow> None
                     | Some (shortest_dist, best_fit_node, index_torso') \<Rightarrow>
                         Some (Point (px best_fit_node + threshold)
                                     (py best_fit_node - cdiv shortest_dist 2),
                               index_torso')))))"

text \<open>The skip loop of the waist detector, with its stride of 101 (lines 415 to 422).\<close>

function waist_skip :: "Point list \<Rightarrow> int \<Rightarrow> int \<Rightarrow> int option" where
  "waist_skip shape_pixels bound i =
     (case vat shape_pixels i of
        None \<Rightarrow> None
      | Some p \<Rightarrow>
          if px p < bound \<and> p \<noteq> Point 0 0
          then (if bound - px p \<ge> 8
                then waist_skip shape_pixels bound (i + 100 + 1)
                else waist_skip shape_pixels bound (i + 1))
          else Some i)"
  by pat_completeness auto
termination
  by (relation "measure (\<lambda>(sp, b, i). nat (int (length sp) - i))")
     (auto simp: vat_def split: if_splits)

declare waist_skip.simps [simp del]

text \<open>
  The scan loop of the waist detector (lines 427 to 446) and of the shoulder detector
  (lines 540 to 559), which are the same loop: the expected next pixel is the current one
  with its column increased.
\<close>

function widest_loop ::
  "Point list \<Rightarrow> int \<Rightarrow> int \<Rightarrow> Point \<Rightarrow> int \<Rightarrow> int \<Rightarrow> Point \<Rightarrow> int \<Rightarrow> (int \<times> Point \<times> int) option"
where
  "widest_loop shape_pixels lower_bound_x i current_row current_dist largest_dist
               best_fit_node index_out =
     (case vat shape_pixels i of
        None \<Rightarrow> None
      | Some p \<Rightarrow>
          if p \<noteq> Point 0 0 \<and> px p < lower_bound_x
          then (case vat shape_pixels (i + 1) of
                  None \<Rightarrow> None
                | Some q \<Rightarrow>
                    let expected = Point (px current_row) (py current_row + 1) in
                    if q = expected
                    then widest_loop shape_pixels lower_bound_x (i + 1) expected
                           (current_dist + 1) largest_dist best_fit_node index_out
                    else if current_dist > largest_dist
                    then widest_loop shape_pixels lower_bound_x (i + 1) q 0 current_dist p i
                    else widest_loop shape_pixels lower_bound_x (i + 1) q 0 largest_dist
                           best_fit_node index_out)
          else Some (largest_dist, best_fit_node, index_out))"
  by pat_completeness auto
termination
  by (relation "measure (\<lambda>(sp, l, i, r). nat (int (length sp) - i))")
     (auto simp: vat_def split: if_splits)

declare widest_loop.simps [simp del]

text \<open>
  The \<^verbatim>\<open>try\<close> block of the waist detector holds vector reads and integer arithmetic only,
  and none of them throws a \<^verbatim>\<open>cv::Exception\<close>: the handler that would raise
  \<^verbatim>\<open>bad_skel_flag\<close> is never entered, and the detector leaves the flag as it is.
\<close>

definition find_waist_feature ::
  "Point list \<Rightarrow> int \<Rightarrow> Point \<Rightarrow> int \<Rightarrow> int \<Rightarrow> (Point \<times> int) option" where
  "find_waist_feature shape_pixels threshold torso_feature index_torso index_waist =
     (case vat shape_pixels 0 of
        None \<Rightarrow> None
      | Some first \<Rightarrow>
          let upper_bound_x = (if 64 < px torso_feature then px torso_feature + 1 else 64) in
          (case waist_skip shape_pixels (upper_bound_x + threshold) index_torso of
             None \<Rightarrow> None
           | Some i \<Rightarrow>
               (case vat shape_pixels i of
                  None \<Rightarrow> None
                | Some start \<Rightarrow>
                    (case widest_loop shape_pixels 80 i start 0 0 start index_waist of
                       None \<Rightarrow> None
                     | Some (largest_dist, best_fit_node, index_waist') \<Rightarrow>
                         Some (Point (px best_fit_node - threshold)
                                     (py best_fit_node - cdiv largest_dist 2),
                               index_waist')))))"

text \<open>
  The foot detector compares \<^verbatim>\<open>sqrt\<close> of integer sums of squares, starting from 10000.
  \<^verbatim>\<open>sqrt\<close> is monotone and separates the integers of this range, so the comparison of
  the roots is the comparison of the squares, starting from \<open>10000\<^sup>2\<close>.
\<close>

function foot_loop :: "Point list \<Rightarrow> Point \<Rightarrow> int \<Rightarrow> Point \<Rightarrow> int \<Rightarrow> Point option" where
  "foot_loop shape_pixels corner i best_fit_node shortest_sq =
     (case vat shape_pixels i of
        None \<Rightarrow> None
      | Some p \<Rightarrow>
          if p \<noteq> Point 0 0
          then (case vat shape_pixels (i + 1) of
                  None \<Rightarrow> None
                | Some q \<Rightarrow>
                    let distx = (px corner - px q) * (px corner - px q);
                        disty = (py corner - py q) * (py corner - py q)
                    in if distx + disty < shortest_sq
                       then foot_loop shape_pixels corner (i + 1) q (distx + disty)
                       else foot_loop shape_pixels corner (i + 1) best_fit_node shortest_sq)
          else Some best_fit_node)"
  by pat_completeness auto
termination
  by (relation "measure (\<lambda>(sp, c, i, r). nat (int (length sp) - i))")
     (auto simp: vat_def split: if_splits)

declare foot_loop.simps [simp del]

definition find_foot_feature ::
  "Point list \<Rightarrow> int \<Rightarrow> Point \<Rightarrow> Point \<Rightarrow> int \<Rightarrow> Point option" where
  "find_foot_feature shape_pixels threshold waist_feature corner index_waist =
     (let upper_bound_x = (if 70 < px waist_feature then px waist_feature + 1 else 70) in
      case skip_above shape_pixels (upper_bound_x + threshold) index_waist of
        None \<Rightarrow> None
      | Some i \<Rightarrow> foot_loop shape_pixels corner i (Point 1000 1000) 100000000)"

text \<open>The skip loop of the shoulder detector has no test for the (0,0) terminator (line 532).\<close>

function shoulder_skip :: "Point list \<Rightarrow> int \<Rightarrow> int \<Rightarrow> int option" where
  "shoulder_skip shape_pixels upper_bound_x i =
     (case vat shape_pixels i of
        None \<Rightarrow> None
      | Some p \<Rightarrow>
          if px p < upper_bound_x
          then shoulder_skip shape_pixels upper_bound_x (i + 1)
          else Some i)"
  by pat_completeness auto
termination
  by (relation "measure (\<lambda>(sp, b, i). nat (int (length sp) - i))")
     (auto simp: vat_def split: if_splits)

declare shoulder_skip.simps [simp del]

text \<open>
  The result is (left shoulder, right shoulder, arm width, index of the shoulder row);
  the last argument is the value of \<^verbatim>\<open>*index_shoulders\<close> at the call.
\<close>

definition set_shoulder_positions ::
  "Point list \<Rightarrow> int \<Rightarrow> Point \<Rightarrow> int \<Rightarrow> int \<Rightarrow> (Point \<times> Point \<times> int \<times> int) option" where
  "set_shoulder_positions shape_pixels threshold torso_feature index_torso index_shoulders =
     (case vat shape_pixels 0 of
        None \<Rightarrow> None
      | Some first \<Rightarrow>
          (case shoulder_skip shape_pixels (px torso_feature) index_torso of
             None \<Rightarrow> None
           | Some i \<Rightarrow>
               (case vat shape_pixels i of
                  None \<Rightarrow> None
                | Some start \<Rightarrow>
                    (case widest_loop shape_pixels (px torso_feature + threshold) i start 0 0
                            start index_shoulders of
                       None \<Rightarrow> None
                     | Some (largest_dist, best_fit_node, index_shoulders') \<Rightarrow>
                         let arm_width = (if cdiv largest_dist 10 = 0 then 1
                                          else cdiv largest_dist 10)
                         in Some (Point (px best_fit_node)
                                        (py best_fit_node - largest_dist + arm_width),
                                  Point (px best_fit_node) (py best_fit_node - arm_width),
                                  arm_width, index_shoulders')))))"

definition calc_halfway_torso_dist :: "Point \<Rightarrow> Point \<Rightarrow> Point \<times> int" where
  "calc_halfway_torso_dist torso_feature waist_feature =
     (let halfway_dist_x = cdiv (px waist_feature - px torso_feature) 2;
          halfway_dist_y = cdiv (py waist_feature - py torso_feature) 2;
          halfway_node = Point (px torso_feature + halfway_dist_x)
                               (py torso_feature + halfway_dist_y);
          distx = (px halfway_node - px torso_feature) * (px halfway_node - px torso_feature);
          disty = (py halfway_node - py torso_feature) * (py halfway_node - py torso_feature)
      in (halfway_node, distx + disty))"

subsection \<open>Collaborators outside the integer core\<close>

text \<open>
  \<^verbatim>\<open>cv::floodFill\<close> and the drawing primitives belong to OpenCV, and the elbow and hand
  detectors compute with \<^verbatim>\<open>double\<close> (\<^verbatim>\<open>sqrt\<close>, \<^verbatim>\<open>atan2\<close>, \<^verbatim>\<open>cos\<close>, \<^verbatim>\<open>sin\<close>). The fitter takes them
  as parameters. Each returns \<open>None\<close> where the source has undefined behaviour or lets an
  exception escape; the detectors and \<^verbatim>\<open>draw_skeleton\<close> also return whether their
  \<^verbatim>\<open>catch\<close> handler ran, which is the only way they touch \<^verbatim>\<open>bad_skel_flag\<close>. The distance
  \<^verbatim>\<open>halfway_dist\<close> is handed over as the integer under its square root.
\<close>

record collaborators =
  floodFill :: "Mat \<Rightarrow> Point \<Rightarrow> Vec3b \<Rightarrow> Mat option"
  find_elbow_feature ::
    "Point list \<Rightarrow> Point \<Rightarrow> Point \<Rightarrow> Point \<Rightarrow> int \<Rightarrow> int \<Rightarrow> Point \<Rightarrow> int \<Rightarrow> (Point \<times> bool) option"
  find_hand_feature ::
    "Point list \<Rightarrow> Point list \<Rightarrow> Point \<Rightarrow> Point \<Rightarrow> int \<Rightarrow> int \<Rightarrow> Point \<Rightarrow> Mat \<Rightarrow> int
       \<Rightarrow> (Point \<times> bool) option"
  draw_skeleton :: "Mat \<Rightarrow> Point list \<Rightarrow> (Mat \<times> bool) option"

text \<open>
  A reference flood fill, after the OpenCV documentation of \<^verbatim>\<open>floodFill(image, seed, newVal)\<close>
  with its default arguments: the 4-connected component of the seed pixel, made of the
  pixels of the seed's colour, is repainted with \<open>newVal\<close>. The seed \<^verbatim>\<open>Point(x, y)\<close> names
  column \<open>x\<close> and row \<open>y\<close>; a seed outside the image raises an exception.
\<close>

definition unfilled :: "nat \<Rightarrow> nat \<Rightarrow> Vec3b \<Rightarrow> (nat \<times> nat \<Rightarrow> Vec3b) \<Rightarrow> (nat \<times> nat) set" where
  "unfilled R C old d = {p \<in> {..<R} \<times> {..<C}. d p = old}"

function flood ::
  "nat \<Rightarrow> nat \<Rightarrow> Vec3b \<Rightarrow> Vec3b \<Rightarrow> (nat \<times> nat) list \<Rightarrow> (nat \<times> nat \<Rightarrow> Vec3b) \<Rightarrow> (nat \<times> nat \<Rightarrow> Vec3b)"
where
  "flood R C old new [] d = d"
| "flood R C old new ((r, c) # work) d =
     (if r < R \<and> c < C \<and> d (r, c) = old \<and> old \<noteq> new
      then flood R C old new
             ((r + 1, c) # (r - 1, c) # (r, c + 1) # (r, c - 1) # work) (d((r, c) := new))
      else flood R C old new work d)"
  \<comment> \<open>in row or column 0 the predecessor is the pixel itself, already repainted\<close>
  by pat_completeness auto
termination
proof (relation "measures [\<lambda>(R, C, old, new, work, d). card (unfilled R C old d),
                           \<lambda>(R, C, old, new, work, d). length work]")
  fix R C :: nat and old new :: Vec3b and r c :: nat and work :: "(nat \<times> nat) list"
    and d :: "nat \<times> nat \<Rightarrow> Vec3b"
  assume a: "r < R \<and> c < C \<and> d (r, c) = old \<and> old \<noteq> new"
  have fin: "finite (unfilled R C old d)"
    by (simp add: unfilled_def)
  have "unfilled R C old (d((r, c) := new)) \<subseteq> unfilled R C old d - {(r, c)}"
    using a by (auto simp: unfilled_def)
  moreover have "(r, c) \<in> unfilled R C old d"
    using a by (simp add: unfilled_def)
  ultimately have "card (unfilled R C old (d((r, c) := new))) < card (unfilled R C old d)"
    by (metis fin card_Diff1_less card_mono finite_Diff le_less_trans)
  then show "((R, C, old, new, (r + 1, c) # (r - 1, c) # (r, c + 1) # (r, c - 1) # work,
               d((r, c) := new)),
              (R, C, old, new, (r, c) # work, d))
             \<in> measures [\<lambda>(R, C, old, new, work, d). card (unfilled R C old d),
                          \<lambda>(R, C, old, new, work, d). length work]"
    by simp
qed auto

declare flood.simps [simp del]

definition floodFill4 :: "Mat \<Rightarrow> Point \<Rightarrow> Vec3b \<Rightarrow> Mat option" where
  "floodFill4 img seed newVal =
     (if 0 \<le> px seed \<and> px seed < int (cols img) \<and> 0 \<le> py seed \<and> py seed < int (rows img)
      then let s = (nat (py seed), nat (px seed)) in
           Some (img\<lparr>data := flood (rows img) (cols img) (data img s) newVal [s] (data img)\<rparr>)
      else None)"

subsection \<open>The skeleton fitter\<close>

text \<open>Lines 221 to 224: the flood from the centre pixel.\<close>

definition fill_stage :: "collaborators \<Rightarrow> Mat \<Rightarrow> Mat option" where
  "fill_stage E contoursonly =
     do {
       centre \<leftarrow> at contoursonly 64 32;
       if centre \<noteq> C_OUTLINE
       then floodFill E contoursonly (Point 32 64) C_INTERIOR
       else Some contoursonly
     }"

text \<open>Line 226: the test that decides whether a skeleton is fitted at all.\<close>

definition silhouette_ok :: "Mat \<Rightarrow> bool option" where
  "silhouette_ok contoursonly =
     do {
       corner \<leftarrow> at contoursonly 0 0;
       if corner \<noteq> C_INTERIOR
       then do { centre \<leftarrow> at contoursonly 64 32; Some (centre \<noteq> C_OUTLINE) }
       else Some False
     }"

text \<open>
  Lines 228 to 251. \<^verbatim>\<open>nodes\<close> was created as \<^verbatim>\<open>vector<Point> nodes(11)\<close>, eleven
  value-initialised points; the four index variables start at 0.
\<close>

definition fit_landmarks ::
  "collaborators \<Rightarrow> PeopleFinder \<Rightarrow> Mat \<Rightarrow> (Point list \<times> PeopleFinder \<times> Mat) option" where
  "fit_landmarks E pf contoursonly =
     do {
       (shape_pixels, outline_pixels) \<leftarrow> highlight_pixels contoursonly;
       (n0, index_head) \<leftarrow> find_head_feature shape_pixels 5 0;
       (n1, index_torso) \<leftarrow> find_torso_feature shape_pixels 5 n0 index_head 0;
       if is_within_bound n1 0 0 (int (rows contoursonly)) (int (cols contoursonly))
       then do {
         (n2, index_waist) \<leftarrow> find_waist_feature shape_pixels 5 n1 index_torso 0;
         (halfway_node, halfway_sq) \<leftarrow> Some (calc_halfway_torso_dist n1 n2);
         n3 \<leftarrow> find_foot_feature shape_pixels 5 n2 (Point 127 1) index_waist;
         n4 \<leftarrow> find_foot_feature shape_pixels 5 n2 (Point 127 63) index_waist;
         (n5, n6, arm_width, index_shoulders) \<leftarrow>
            set_shoulder_positions shape_pixels 5 n1 index_torso 0;
         (n7, raised7) \<leftarrow> find_elbow_feature E shape_pixels n1 n2 n5 arm_width halfway_sq
                            halfway_node index_shoulders;
         (n8, raised8) \<leftarrow> find_hand_feature E shape_pixels outline_pixels n2 n7 arm_width
                            halfway_sq halfway_node contoursonly index_shoulders;
         (n9, raised9) \<leftarrow> find_elbow_feature E shape_pixels n1 n2 n6 arm_width halfway_sq
                            halfway_node index_shoulders;
         (n10, raised10) \<leftarrow> find_hand_feature E shape_pixels outline_pixels n2 n9 arm_width
                              halfway_sq halfway_node contoursonly index_shoulders;
         (drawn, raised_draw) \<leftarrow>
            draw_skeleton E contoursonly [n0, n1, n2, n3, n4, n5, n6, n7, n8, n9, n10];
         Some ([n0, n1, n2, n3, n4, n5, n6, n7, n8, n9, n10],
               pf\<lparr>bad_skel_flag := bad_skel_flag pf \<or> raised7 \<or> raised8 \<or> raised9
                                      \<or> raised10 \<or> raised_draw\<rparr>,
               drawn)
       }
       else Some ([n0, n1] @ replicate 9 (Point 0 0), pf\<lparr>bad_skel_flag := True\<rparr>, contoursonly)
     }"

text \<open>
  The result is the returned \<^verbatim>\<open>nodes\<close>, the object after the call and the image behind
  the pointer after the call.
\<close>

definition create_skeleton ::
  "collaborators \<Rightarrow> PeopleFinder \<Rightarrow> Mat \<Rightarrow> (Point list \<times> PeopleFinder \<times> Mat) option" where
  "create_skeleton E pf contoursonly =
     do {
       filled \<leftarrow> fill_stage E contoursonly;
       ok \<leftarrow> silhouette_ok filled;
       if ok then fit_landmarks E pf filled
       else Some (replicate 11 (Point 0 0), pf\<lparr>bad_skel_flag := True\<rparr>, filled)
     }"

subsection \<open>The training driver\<close>

text \<open>
  \<^verbatim>\<open>train\<close> walks the loaded images until the first empty one. The argument \<open>contours\<close>
  is the sequence of \<^verbatim>\<open>contoursonly\<close> images that the contour extractor (not part of this
  file) returns for them, in order.
\<close>

definition train_body :: "collaborators \<Rightarrow> PeopleFinder \<Rightarrow> Mat \<Rightarrow> PeopleFinder option" where
  "train_body E pf contoursonly =
     do {
       (feature_nodes, pf1, drawn) \<leftarrow> create_skeleton E pf contoursonly;
       pf2 \<leftarrow> (if \<not> bad_skel_flag pf1 then train_compare_ranges feature_nodes pf1
               else Some pf1);
       Some (pf2\<lparr>bad_skel_flag := False\<rparr>)
     }"

fun train_loop :: "collaborators \<Rightarrow> PeopleFinder \<Rightarrow> Mat list \<Rightarrow> PeopleFinder option" where
  "train_loop E pf [] = Some pf"
| "train_loop E pf (contoursonly # rest) =
     do { pf' \<leftarrow> train_body E pf contoursonly; train_loop E pf' rest }"

definition train :: "collaborators \<Rightarrow> PeopleFinder \<Rightarrow> Mat list \<Rightarrow> PeopleFinder option" where
  "train E pf contours = do { pf0 \<leftarrow> init pf; train_loop E pf0 contours }"

subsection \<open>Concrete inputs\<close>

text \<open>
  The reference collaborators use the reference flood fill. Their elbow, hand and drawing
  entries only stand in for the floating-point detectors and the drawing code: they answer
  the not-found landmark, leave the image alone and never raise the flag.
\<close>

definition reference_collaborators :: collaborators where
  "reference_collaborators =
     \<lparr>floodFill = floodFill4,
      find_elbow_feature = (\<lambda>sp torso waist shoulder arm_width halfway_sq halfway_node idx.
                              Some (Point 1000 1000, False)),
      find_hand_feature = (\<lambda>sp ol waist elbow arm_width halfway_sq halfway_node img idx.
                             Some (Point 1000 1000, False)),
      draw_skeleton = (\<lambda>img nodes. Some (img, False))\<rparr>"

text \<open>The range model as \<^verbatim>\<open>init\<close> leaves it.\<close>

definition pf_init :: PeopleFinder where
  "pf_init = \<lparr>min_range = replicate 11 (Point 1000 1000), max_range = replicate 11 (Point 0 0),
              training_path = [], bad_skel_flag = False\<rparr>"

text \<open>A black 128 x 64 image whose centre pixel (64, 32) is an outline pixel.\<close>

definition img_bar :: Mat where
  "img_bar = \<lparr>rows = 128, cols = 64,
               data = (\<lambda>p. if p = (64, 32) then C_OUTLINE else (0, 0, 0))\<rparr>"

text \<open>
  A black 128 x 64 image with a closed outline around the single pixel (64, 32), and the
  same image after the flood from the centre.
\<close>

definition img_dot :: Mat where
  "img_dot = \<lparr>rows = 128, cols = 64,
      data = (\<lambda>p. if p \<in> {(63, 32), (64, 31), (64, 33), (65, 32)} then C_OUTLINE
                  else (0, 0, 0))\<rparr>"

definition img_dot_filled :: Mat where
  "img_dot_filled = img_dot\<lparr>data := (data img_dot)((64, 32) := C_INTERIOR)\<rparr>"

text \<open>
  A black 128 x 64 image with a closed outline around the one-pixel-wide column of rows 37
  to 64 in column 32, the same image after the flood from the centre, its interior pixels
  and the \<^verbatim>\<open>shape_pixels\<close> vector that \<^verbatim>\<open>highlight_pixels\<close> builds from them.
\<close>

definition img_col :: Mat where
  "img_col = \<lparr>rows = 128, cols = 64,
      data = (\<lambda>(r, c). if 37 \<le> r \<and> r \<le> 64 \<and> (c = 31 \<or> c = 33) \<or> (r = 36 \<or> r = 65) \<and> c = 32
                        then C_OUTLINE else (0, 0, 0))\<rparr>"

definition img_col_filled :: Mat where
  "img_col_filled = img_col\<lparr>data := (\<lambda>(r, c). if 37 \<le> r \<and> r \<le> 64 \<and> c = 32 then C_INTERIOR
                                               else data img_col (r, c))\<rparr>"

definition col_pixels :: "Point list" where
  "col_pixels = map (\<lambda>r. Point (int r) 32) [37..<65]"

definition col_vector :: "Point list" where
  "col_vector = col_pixels @ replicate 8164 (Point 0 0)"

text \<open>Collaborators whose \<^verbatim>\<open>catch\<close> handlers never run.\<close>

definition quiet :: "collaborators \<Rightarrow> bool" where
  "quiet E \<longleftrightarrow>
     (\<forall>sp torso waist shoulder aw hsq hn idx p r.
        find_elbow_feature E sp torso waist shoulder aw hsq hn idx = Some (p, r) \<longrightarrow> \<not> r)
   \<and> (\<forall>sp ol waist elbow aw hsq hn img idx p r.
        find_hand_feature E sp ol waist elbow aw hsq hn img idx = Some (p, r) \<longrightarrow> \<not> r)
   \<and> (\<forall>img ns drawn r. draw_skeleton E img ns = Some (drawn, r) \<longrightarrow> \<not> r)"

subsection \<open>Pixel lists given by their rows\<close>

text \<open>
  A row-major pixel list whose rows are contiguous is given by its rows: (row, left column,
  number of pixels), the rows in increasing order. \<open>row_pixels\<close> lists the pixels of one row.
\<close>

definition row_pixels :: "int \<times> int \<times> nat \<Rightarrow> Point list" where
  "row_pixels row = (case row of (r, c, n) \<Rightarrow> map (\<lambda>k. Point r (c + int k)) [0..<n])"

text \<open>
  The state (\<^verbatim>\<open>shortest_dist\<close>, \<^verbatim>\<open>best_fit_node\<close>) of the torso scan after the rows of a band.
\<close>

fun scan_band :: "(int \<times> int \<times> nat) list \<Rightarrow> int \<times> Point \<Rightarrow> int \<times> Point" where
  "scan_band [] s = s"
| "scan_band ((r, c, n) # band) (sh, best) =
     scan_band band (if int n - 1 < sh then (int n - 1, Point r (c + int n - 1)) else (sh, best))"

text \<open>
  The torso detector in the words of the specification, for comparison with the code:
  group the interior pixels by row, take as run length of a row its number of contiguous
  columns (counted from its left end), select the row with the smallest run length between
  \<open>head.row + threshold\<close> and \<open>max(48, head.row + 1)\<close>, and return
  \<open>(row + threshold, left_col + run/2)\<close>.
\<close>

fun rows_of :: "Point list \<Rightarrow> Point list list" where
  "rows_of [] = []"
| "rows_of (p # ps) =
     (case rows_of ps of
        [] \<Rightarrow> [[p]]
      | g # gs \<Rightarrow> if px (hd g) = px p then (p # g) # gs else [p] # g # gs)"

fun run_length :: "Point list \<Rightarrow> nat" where
  "run_length [] = 0"
| "run_length [p] = 1"
| "run_length (p # q # ps) = (if py q = py p + 1 then Suc (run_length (q # ps)) else 1)"

definition spec_torso :: "Point list \<Rightarrow> int \<Rightarrow> Point \<Rightarrow> Point option" where
  "spec_torso shape_pixels threshold head_feature =
     (let interior = takeWhile (\<lambda>p. p \<noteq> Point 0 0) shape_pixels;
          band = filter (\<lambda>g. px head_feature + threshold \<le> px (hd g)
                              \<and> px (hd g) < max 48 (px head_feature + 1)) (rows_of interior)
      in if band = [] then None
         else let g = arg_min_list run_length band
              in Some (Point (px (hd g) + threshold) (py (hd g) + int (run_length g) div 2)))"

text \<open>
  Two pixel vectors: one whose row 20 has a gap between columns 11 and 40, and one made of
  contiguous rows, three of them in the band of the torso scan for the head (15, 30).
\<close>

definition gap_vector :: "Point list" where
  "gap_vector = [Point 10 30, Point 10 31, Point 10 32,
                 Point 20 10, Point 20 11, Point 20 40,
                 Point 21 10, Point 21 11, Point 21 12, Point 21 13]
                @ replicate 8182 (Point 0 0)"

definition neck_rows :: "(int \<times> int \<times> nat) list" where
  "neck_rows = [(20, 10, 5), (21, 12, 2), (22, 9, 2)]"

definition neck_vector :: "Point list" where
  "neck_vector = concat (map row_pixels ([(10, 30, 3)] @ neck_rows @ [(50, 5, 4)]))
                 @ replicate 8176 (Point 0 0)"

section \<open>Classifier and range model: proofs\<close>

lemma fold_score_step:
  "distinct is \<Longrightarrow>
   fold (score_step pf nodes) is s = s + int (card {i \<in> set is. contains pf nodes i})"
proof (induction "is" arbitrary: s)
  case Nil
  then show ?case by simp
next
  case (Cons i "is")
  have fin: "finite {j \<in> set is. contains pf nodes j}" by simp
  have notin: "i \<notin> {j \<in> set is. contains pf nodes j}" using Cons.prems by simp
  show ?case
  proof (cases "contains pf nodes i")
    case True
    then have "{j \<in> set (i # is). contains pf nodes j} =
               insert i {j \<in> set is. contains pf nodes j}" by auto
    then have "card {j \<in> set (i # is). contains pf nodes j} =
               Suc (card {j \<in> set is. contains pf nodes j})"
      using fin notin by simp
    with Cons True show ?thesis by (simp add: score_step_def)
  next
    case False
    then have "{j \<in> set (i # is). contains pf nodes j} = {j \<in> set is. contains pf nodes j}"
      by auto
    with Cons False show ?thesis by (simp add: score_step_def)
  qed
qed

lemma feature_score_card:
  "feature_score pf nodes = int (card {i. i < 11 \<and> contains pf nodes i})"
proof -
  have "{i \<in> set [0..<11]. contains pf nodes i} = {i. i < 11 \<and> contains pf nodes i}"
    by auto
  then show ?thesis
    unfolding feature_score_def using fold_score_step [of "[0..<11]" pf nodes 0] by simp
qed

lemma is_within_bound_empty_box: "\<not> is_within_bound node lx ly lx ly"
  by (simp add: is_within_bound_def)

lemma fold_init_step_min:
  "n \<le> length (min_range pf) \<Longrightarrow>
   min_range (fold init_step [0..<n] pf) = replicate n (Point 1000 1000) @ drop n (min_range pf)"
proof (induction n)
  case 0
  then show ?case by simp
next
  case (Suc n)
  then have "n < length (min_range pf)" by simp
  then show ?case using Suc
    by (simp add: init_step_def list_update_append replicate_append_same
        upd_conv_take_nth_drop Cons_nth_drop_Suc flip: replicate_Suc)
qed

lemma fold_init_step_max:
  "n \<le> length (max_range pf) \<Longrightarrow>
   max_range (fold init_step [0..<n] pf) = replicate n (Point 0 0) @ drop n (max_range pf)"
proof (induction n)
  case 0
  then show ?case by simp
next
  case (Suc n)
  then have "n < length (max_range pf)" by simp
  then show ?case using Suc
    by (simp add: init_step_def list_update_append replicate_append_same
        upd_conv_take_nth_drop Cons_nth_drop_Suc flip: replicate_Suc)
qed

lemma fold_init_step_rest:
  "bad_skel_flag (fold init_step is pf) = bad_skel_flag pf
   \<and> training_path (fold init_step is pf) = training_path pf"
  by (induction "is" arbitrary: pf) (simp_all add: init_step_def)

lemma compare_step_length:
  "length (min_range (compare_step S i pf)) = length (min_range pf)
   \<and> length (max_range (compare_step S i pf)) = length (max_range pf)"
  by (simp add: compare_step_def Let_def)

lemma compare_step_other:
  "j \<noteq> i \<Longrightarrow> min_range (compare_step S i pf) ! j = min_range pf ! j
             \<and> max_range (compare_step S i pf) ! j = max_range pf ! j"
  by (simp add: compare_step_def Let_def)

lemma fold_compare_step_length:
  "length (min_range (fold (compare_step S) is pf)) = length (min_range pf)
   \<and> length (max_range (fold (compare_step S) is pf)) = length (max_range pf)"
  by (induction "is" arbitrary: pf) (simp_all add: compare_step_length)

lemma fold_compare_step_untouched:
  "j \<notin> set is \<Longrightarrow> min_range (fold (compare_step S) is pf) ! j = min_range pf ! j
                  \<and> max_range (fold (compare_step S) is pf) ! j = max_range pf ! j"
  by (induction "is" arbitrary: pf) (auto simp: compare_step_other)

lemma compare_step_same:
  "i < length (min_range pf) \<Longrightarrow> i < length (max_range pf) \<Longrightarrow>
   min_range (compare_step S i pf) ! i = widen_min (S ! i) (min_range pf ! i)
   \<and> max_range (compare_step S i pf) ! i = widen_max (S ! i) (max_range pf ! i)"
  by (simp add: compare_step_def Let_def widen_min_def widen_max_def)

lemma fold_compare_step_nth:
  "distinct is \<Longrightarrow> i \<in> set is \<Longrightarrow> i < length (min_range pf) \<Longrightarrow> i < length (max_range pf) \<Longrightarrow>
   min_range (fold (compare_step S) is pf) ! i = widen_min (S ! i) (min_range pf ! i)
   \<and> max_range (fold (compare_step S) is pf) ! i = widen_max (S ! i) (max_range pf ! i)"
proof (induction "is" arbitrary: pf)
  case Nil
  then show ?case by simp
next
  case (Cons j js)
  show ?case
  proof (cases "j = i")
    case True
    then have "i \<notin> set js" using Cons.prems by simp
    then show ?thesis using True Cons.prems
      by (simp add: fold_compare_step_untouched compare_step_same)
  next
    case False
    then have "i \<in> set js" "distinct js" using Cons.prems by auto
    then show ?thesis using False Cons.IH [of "compare_step S j pf"] Cons.prems
      by (simp add: compare_step_length compare_step_other)
  qed
qed

lemma train_compare_ranges_nth:
  assumes "train_compare_ranges S pf = Some pf'" "i < 11"
  shows "min_range pf' ! i = widen_min (S ! i) (min_range pf ! i)
       \<and> max_range pf' ! i = widen_max (S ! i) (max_range pf ! i)"
proof -
  have l: "i < length (min_range pf)" "i < length (max_range pf)"
    and e: "pf' = fold (compare_step S) [0..<11] pf"
    using assms by (auto simp: train_compare_ranges_def split: if_splits)
  show ?thesis unfolding e using l assms(2) by (intro fold_compare_step_nth) simp_all
qed

lemma init_nth:
  assumes "init pf = Some pf'" "i < 11"
  shows "min_range pf' ! i = Point 1000 1000 \<and> max_range pf' ! i = Point 0 0"
  using assms
  by (auto simp: init_def fold_init_step_min fold_init_step_max nth_append split: if_splits)


lemma single_skeleton_training:
  assumes "init pf = Some pf0" "train_compare_ranges S pf0 = Some pf1" "i < 11"
      and "0 \<le> px (S ! i)" "px (S ! i) \<le> 1000" "0 \<le> py (S ! i)" "py (S ! i) \<le> 1000"
  shows "min_range pf1 ! i = S ! i \<and> max_range pf1 ! i = S ! i"
  using train_compare_ranges_nth [OF assms(2,3)] init_nth [OF assms(1,3)] assms(4-7)
  by (cases "S ! i") (simp add: widen_min_def widen_max_def)

lemma compare_step_id:
  assumes "i < length (min_range pf)" "i < length (max_range pf)"
      and "px (min_range pf ! i) < px (S ! i)" "px (S ! i) < px (max_range pf ! i)"
      and "py (min_range pf ! i) < py (S ! i)" "py (S ! i) < py (max_range pf ! i)"
  shows "compare_step S i pf = pf"
  using assms by (simp add: compare_step_def Let_def)

lemma fold_compare_step_id:
  "(\<forall>i \<in> set is. compare_step S i pf = pf) \<Longrightarrow> fold (compare_step S) is pf = pf"
  by (induction "is") simp_all

text \<open>
  Claim C5. For every skeleton and every range model (vectors of at least 11 entries), the
  score of \<^verbatim>\<open>judge_features\<close> is the number of indices \<open>i\<close> in \<open>0..10\<close> whose landmark lies in
  box \<open>i\<close>, and the verdict is "Pedestrian" iff the score is at least 7, "Something" iff it is
  at least 3 and below 7, and "Noise" iff it is below 3.
\<close>

theorem judge_features_score_verdict:
  assumes "length nodes \<ge> 11" "length (min_range pf) \<ge> 11" "length (max_range pf) \<ge> 11"
  shows "feature_score pf nodes = int (card {i. i < 11 \<and> contains pf nodes i})
       \<and> judge_features pf nodes = Some (verdict_of (feature_score pf nodes))
       \<and> (verdict_of (feature_score pf nodes) = ''Pedestrian'' \<longleftrightarrow> feature_score pf nodes \<ge> 7)
       \<and> (verdict_of (feature_score pf nodes) = ''Something'' \<longleftrightarrow>
            3 \<le> feature_score pf nodes \<and> feature_score pf nodes < 7)
       \<and> (verdict_of (feature_score pf nodes) = ''Noise'' \<longleftrightarrow> feature_score pf nodes < 3)"
  using assms by (simp add: feature_score_card judge_features_def verdict_of_def)

theorem judge_features_score_verdict_witness:
  "length (replicate 7 (Point 5 5) @ replicate 4 (Point 1000 1000)) \<ge> 11
   \<and> length (min_range pf_box) \<ge> 11 \<and> length (max_range pf_box) \<ge> 11
   \<and> card {i. i < 11 \<and> contains pf_box (replicate 7 (Point 5 5) @ replicate 4 (Point 1000 1000)) i} = 7
   \<and> judge_features pf_box (replicate 7 (Point 5 5) @ replicate 4 (Point 1000 1000))
       = Some ''Pedestrian''"
proof -
  let ?n = "replicate 7 (Point 5 5) @ replicate 4 (Point 1000 1000)"
  have l: "length ?n \<ge> 11" "length (min_range pf_box) \<ge> 11" "length (max_range pf_box) \<ge> 11"
    by (simp_all add: pf_box_def)
  have "feature_score pf_box ?n = 7"
    by (simp add: feature_score_def score_step_def contains_def is_within_bound_def pf_box_def
        upt_rec numeral_eq_Suc nth_append)
  with judge_features_score_verdict [OF l] l show ?thesis by simp
qed

text \<open>
  Claim C6. The containment test is closed at the lower bound and strict at the upper bound
  in both coordinates; so for every range model with \<open>min_range[i] = max_range[i]\<close> for all
  \<open>i\<close> in \<open>0..10\<close> no landmark of any skeleton is contained, the score is 0 and
  \<^verbatim>\<open>judge_features\<close> returns "Noise" for every skeleton.
\<close>

theorem degenerate_range_is_noise:
  assumes "length nodes \<ge> 11" "length (min_range pf) \<ge> 11" "length (max_range pf) \<ge> 11"
      and "\<forall>i<11. min_range pf ! i = max_range pf ! i"
  shows "(is_within_bound node lower_x lower_y x_bound y_bound \<longleftrightarrow>
            lower_x \<le> px node \<and> px node < x_bound \<and> lower_y \<le> py node \<and> py node < y_bound)
       \<and> (\<forall>i<11. \<not> contains pf nodes i)
       \<and> feature_score pf nodes = 0
       \<and> judge_features pf nodes = Some ''Noise''"
proof -
  have none: "\<forall>i<11. \<not> contains pf nodes i"
    using assms(4) by (simp add: contains_def is_within_bound_empty_box)
  then have "{i. i < 11 \<and> contains pf nodes i} = {}" by auto
  then have "feature_score pf nodes = 0" by (simp add: feature_score_card)
  then show ?thesis using assms(1-3) none
    by (auto simp: judge_features_def verdict_of_def is_within_bound_def)
qed

theorem degenerate_range_is_noise_witness:
  "min_range pf_single = max_range pf_single
   \<and> length (min_range pf_single) = 11
   \<and> \<not> contains pf_single (replicate 11 (Point 5 5)) 0
   \<and> judge_features pf_single (replicate 11 (Point 5 5)) = Some ''Noise''"
proof -
  have l: "length (replicate 11 (Point 5 5)) \<ge> 11" "length (min_range pf_single) \<ge> 11"
    "length (max_range pf_single) \<ge> 11"
    by (simp_all add: pf_single_def)
  have e: "\<forall>i<11. min_range pf_single ! i = max_range pf_single ! i"
    by (simp add: pf_single_def)
  from degenerate_range_is_noise [OF l e] show ?thesis by (simp add: pf_single_def)
qed

text \<open>
  Claim C8. For every range model and every skeleton whose landmarks \<open>0..10\<close> lie strictly
  inside the current box of their index in both coordinates, \<^verbatim>\<open>train_compare_ranges\<close>
  leaves the object, and so \<open>min_range\<close> and \<open>max_range\<close> at every index, unchanged.
\<close>

theorem train_compare_ranges_interior_unchanged:
  assumes "length S \<ge> 11" "length (min_range pf) \<ge> 11" "length (max_range pf) \<ge> 11"
      and "\<forall>i<11. px (min_range pf ! i) < px (S ! i) \<and> px (S ! i) < px (max_range pf ! i)
                 \<and> py (min_range pf ! i) < py (S ! i) \<and> py (S ! i) < py (max_range pf ! i)"
  shows "train_compare_ranges S pf = Some pf"
proof -
  have "\<forall>i \<in> set [0..<11]. compare_step S i pf = pf"
    using assms by (auto intro!: compare_step_id)
  then have "fold (compare_step S) [0..<11] pf = pf"
    by (rule fold_compare_step_id)
  then show ?thesis using assms(1-3) by (simp add: train_compare_ranges_def)
qed

theorem train_compare_ranges_interior_unchanged_witness:
  "min_range pf_box = replicate 11 (Point 0 0) \<and> max_range pf_box = replicate 11 (Point 10 10)
   \<and> train_compare_ranges (replicate 11 (Point 5 5)) pf_box = Some pf_box"
proof -
  have l: "length (replicate 11 (Point 5 5)) \<ge> 11" "length (min_range pf_box) \<ge> 11"
    "length (max_range pf_box) \<ge> 11"
    by (simp_all add: pf_box_def)
  have h: "\<forall>i<11. px (min_range pf_box ! i) < px (replicate 11 (Point 5 5) ! i)
          \<and> px (replicate 11 (Point 5 5) ! i) < px (max_range pf_box ! i)
          \<and> py (min_range pf_box ! i) < py (replicate 11 (Point 5 5) ! i)
          \<and> py (replicate 11 (Point 5 5) ! i) < py (max_range pf_box ! i)"
    by (simp add: pf_box_def)
  from train_compare_ranges_interior_unchanged [OF l h] show ?thesis by (simp add: pf_box_def)
qed


section \<open>The skeleton fitter: proofs\<close>

lemma fit_landmarks_cases:
  assumes "fit_landmarks E pf img = Some (ns, pf', img')"
  shows "\<exists>sp ol n0 ih n1 it.
           highlight_pixels img = Some (sp, ol)
         \<and> find_head_feature sp 5 0 = Some (n0, ih)
         \<and> find_torso_feature sp 5 n0 ih 0 = Some (n1, it)
         \<and> length ns = 11 \<and> ns ! 0 = n0 \<and> ns ! 1 = n1
         \<and> (if is_within_bound n1 0 0 (int (rows img)) (int (cols img))
             then (\<exists>raised. pf' = pf\<lparr>bad_skel_flag := bad_skel_flag pf \<or> raised\<rparr>)
             else ns = [n0, n1] @ replicate 9 (Point 0 0)
                  \<and> pf' = pf\<lparr>bad_skel_flag := True\<rparr> \<and> img' = img)"
  using assms unfolding fit_landmarks_def
  by (fastforce split: bind_splits prod.splits if_splits)

lemma create_skeleton_cases:
  assumes "create_skeleton E pf img = Some (ns, pf', img')"
  shows "\<exists>filled. fill_stage E img = Some filled
         \<and> (if silhouette_ok filled = Some True
             then fit_landmarks E pf filled = Some (ns, pf', img')
             else silhouette_ok filled = Some False
                  \<and> ns = replicate 11 (Point 0 0)
                  \<and> pf' = pf\<lparr>bad_skel_flag := True\<rparr> \<and> img' = filled)"
  using assms unfolding create_skeleton_def
  by (auto split: bind_splits if_splits)

lemma create_skeleton_rejected:
  assumes "fill_stage E img = Some filled" "silhouette_ok filled = Some False"
  shows "create_skeleton E pf img
         = Some (replicate 11 (Point 0 0), pf\<lparr>bad_skel_flag := True\<rparr>, filled)"
  using assms by (simp add: create_skeleton_def)

lemma create_skeleton_accepted:
  assumes "fill_stage E img = Some filled" "silhouette_ok filled = Some True"
  shows "create_skeleton E pf img = fit_landmarks E pf filled"
  using assms by (simp add: create_skeleton_def)

lemma head_loop_result:
  "head_loop sp t i h ih = Some (h', ih') \<Longrightarrow> h' = h \<or> h' \<in> set sp"
proof (induction sp t i h ih rule: head_loop.induct)
  case (1 sp t i h ih)
  show ?case
  proof (cases "vat sp i")
    case None
    with "1.prems" show ?thesis by (simp add: head_loop.simps [of sp t i])
  next
    case (Some p)
    then have mem: "p \<in> set sp" by (auto simp: vat_def split: if_splits)
    show ?thesis
      using "1.prems" "1.IH" Some mem
      by (auto simp: head_loop.simps [of sp t i] split: if_splits)
  qed
qed

lemma find_head_feature_row:
  assumes "find_head_feature sp 5 ih = Some (n0, ih')" "\<forall>p \<in> set sp. 0 \<le> px p"
  shows "5 \<le> px n0"
proof -
  from assms(1) obtain h where h: "head_loop sp 5 0 (Point 1000 1000) ih = Some (h, ih')"
    and n0: "n0 = Point (px h + 5) (py h)"
    by (auto simp: find_head_feature_def split: option.splits)
  from head_loop_result [OF h] assms(2) have "0 \<le> px h" by auto
  with n0 show ?thesis by simp
qed

lemma class_pixels_nonneg: "p \<in> set (class_pixels img colour) \<Longrightarrow> 0 \<le> px p \<and> 0 \<le> py p"
  by (auto simp: class_pixels_def split: if_splits)

lemma highlight_pixels_nonneg:
  assumes "highlight_pixels img = Some (sp, ol)" "p \<in> set sp"
  shows "0 \<le> px p \<and> 0 \<le> py p"
proof -
  from assms(1) have "sp = class_pixels img C_INTERIOR
                        @ replicate (8192 - length (class_pixels img C_INTERIOR)) (Point 0 0)"
    by (simp add: highlight_pixels_def Let_def split: if_splits)
  with assms(2) have "p \<in> set (class_pixels img C_INTERIOR) \<or> p = Point 0 0"
    by (auto split: if_splits)
  then show ?thesis using class_pixels_nonneg [of p img C_INTERIOR] by auto
qed
lemma fit_landmarks_not_default:
  assumes "fit_landmarks E pf img = Some (ns, pf', img')"
  shows "ns \<noteq> replicate 11 (Point 0 0)"
proof
  assume d: "ns = replicate 11 (Point 0 0)"
  from fit_landmarks_cases [OF assms] obtain sp ol n0 ih where
    hp: "highlight_pixels img = Some (sp, ol)" and
    hd: "find_head_feature sp 5 0 = Some (n0, ih)" and n0: "ns ! 0 = n0"
    by blast
  have "5 \<le> px n0"
    using find_head_feature_row [OF hd] highlight_pixels_nonneg [OF hp] by blast
  moreover have "px n0 = 0" using n0 d by auto
  ultimately show False by simp
qed

lemma fit_landmarks_flag:
  assumes "fit_landmarks E pf img = Some (ns, pf', img')"
  shows "\<exists>raised. pf' = pf\<lparr>bad_skel_flag := bad_skel_flag pf \<or> raised\<rparr>"
proof -
  from fit_landmarks_cases [OF assms] obtain n1 where
    c: "if is_within_bound n1 0 0 (int (rows img)) (int (cols img))
        then (\<exists>raised. pf' = pf\<lparr>bad_skel_flag := bad_skel_flag pf \<or> raised\<rparr>)
        else ns = [ns ! 0, n1] @ replicate 9 (Point 0 0)
             \<and> pf' = pf\<lparr>bad_skel_flag := True\<rparr> \<and> img' = img"
    by blast
  show ?thesis
  proof (cases "is_within_bound n1 0 0 (int (rows img)) (int (cols img))")
    case True
    with c show ?thesis by simp
  next
    case False
    with c have "pf' = pf\<lparr>bad_skel_flag := bad_skel_flag pf \<or> True\<rparr>" by simp
    then show ?thesis by blast
  qed
qed

lemma create_skeleton_flag:
  assumes "create_skeleton E pf img = Some (ns, pf', img')"
  shows "\<exists>raised. pf' = pf\<lparr>bad_skel_flag := bad_skel_flag pf \<or> raised\<rparr>"
proof -
  from create_skeleton_cases [OF assms] obtain filled where
    c: "if silhouette_ok filled = Some True
        then fit_landmarks E pf filled = Some (ns, pf', img')
        else silhouette_ok filled = Some False
             \<and> ns = replicate 11 (Point 0 0)
             \<and> pf' = pf\<lparr>bad_skel_flag := True\<rparr> \<and> img' = filled"
    by blast
  show ?thesis
  proof (cases "silhouette_ok filled = Some True")
    case True
    with c show ?thesis by (simp add: fit_landmarks_flag)
  next
    case False
    with c have "pf' = pf\<lparr>bad_skel_flag := bad_skel_flag pf \<or> True\<rparr>" by simp
    then show ?thesis by blast
  qed
qed


lemma flood_keeps: "d p \<noteq> old \<Longrightarrow> flood R C old new work d p = d p"
proof (induction R C old new work d rule: flood.induct)
  case (1 R C old new d)
  then show ?case by (simp add: flood.simps(1))
next
  case (2 R C old new r c work d)
  show ?case
  proof (cases "r < R \<and> c < C \<and> d (r, c) = old \<and> old \<noteq> new")
    case True
    then have ne: "p \<noteq> (r, c)" using "2.prems" by auto
    then have "(d((r, c) := new)) p \<noteq> old" using "2.prems" by simp
    from "2.IH"(1) [OF True this]
    have "flood R C old new ((r + 1, c) # (r - 1, c) # (r, c + 1) # (r, c - 1) # work)
            (d((r, c) := new)) p = (d((r, c) := new)) p" .
    moreover have "flood R C old new ((r, c) # work) d
          = flood R C old new ((r + 1, c) # (r - 1, c) # (r, c + 1) # (r, c - 1) # work)
              (d((r, c) := new))"
      using True by (subst flood.simps(2)) simp
    ultimately show ?thesis using ne by simp
  next
    case False
    have "flood R C old new ((r, c) # work) d = flood R C old new work d"
      using False by (subst flood.simps(2)) auto
    with "2.IH"(2) [OF False "2.prems"] show ?thesis by simp
  qed
qed

lemma flood_seed:
  assumes "r < R" "c < C"
  shows "flood R C (d (r, c)) new [(r, c)] d (r, c) = new"
proof (cases "d (r, c) = new")
  case True
  have "flood R C (d (r, c)) new [(r, c)] d = flood R C (d (r, c)) new [] d"
    using True by (subst flood.simps(2)) simp
  then show ?thesis using True by (simp add: flood.simps(1))
next
  case False
  have "(d((r, c) := new)) (r, c) \<noteq> d (r, c)" using False by simp
  then have "flood R C (d (r, c)) new [(r + 1, c), (r - 1, c), (r, c + 1), (r, c - 1)]
          (d((r, c) := new)) (r, c) = (d((r, c) := new)) (r, c)"
    by (rule flood_keeps)
  moreover have "flood R C (d (r, c)) new [(r, c)] d
        = flood R C (d (r, c)) new [(r + 1, c), (r - 1, c), (r, c + 1), (r, c - 1)]
            (d((r, c) := new))"
    using False assms by (subst flood.simps(2)) simp
  ultimately show ?thesis by simp
qed

lemma floodFill4_seed:
  assumes "floodFill4 img (Point 32 64) newVal = Some filled"
  shows "at filled 64 32 = Some newVal \<and> rows filled = rows img \<and> cols filled = cols img"
  using assms by (auto simp: floodFill4_def at_def Let_def flood_seed split: if_splits)

lemma fit_landmarks_torso_fail:
  assumes "highlight_pixels img = Some (sp, ol)"
      and "find_head_feature sp 5 0 = Some (n0, ih)"
      and "find_torso_feature sp 5 n0 ih 0 = Some (n1, it)"
      and "\<not> is_within_bound n1 0 0 (int (rows img)) (int (cols img))"
  shows "fit_landmarks E pf img
         = Some ([n0, n1] @ replicate 9 (Point 0 0), pf\<lparr>bad_skel_flag := True\<rparr>, img)"
  using assms by (simp add: fit_landmarks_def)

lemma silhouette_ok_dims:
  "silhouette_ok img = Some b \<Longrightarrow> 0 < rows img \<and> 0 < cols img"
  by (auto simp: silhouette_ok_def at_def split: bind_splits if_splits)

lemma silhouette_ok_iff:
  "silhouette_ok img = Some b \<Longrightarrow>
   (\<not> b \<longleftrightarrow> at img 0 0 = Some C_INTERIOR \<or> at img 64 32 = Some C_OUTLINE)"
  by (auto simp: silhouette_ok_def split: bind_splits if_splits)

lemma fill_stage_cases:
  "fill_stage E img = Some filled \<Longrightarrow>
   (if at img 64 32 = Some C_OUTLINE then filled = img
    else floodFill E img (Point 32 64) C_INTERIOR = Some filled)"
  by (auto simp: fill_stage_def split: bind_splits if_splits)

lemma fill_stage_seed:
  assumes "fill_stage E img = Some filled" "floodFill E = floodFill4"
  shows "at filled 64 32 = Some C_OUTLINE \<longleftrightarrow> at filled 64 32 \<noteq> Some C_INTERIOR"
proof (cases "at img 64 32 = Some C_OUTLINE")
  case True
  with fill_stage_cases [OF assms(1)] have "filled = img" by simp
  with True show ?thesis by (simp add: C_OUTLINE_def C_INTERIOR_def)
next
  case False
  with fill_stage_cases [OF assms(1)] assms(2)
  have "floodFill4 img (Point 32 64) C_INTERIOR = Some filled" by simp
  from floodFill4_seed [OF this] show ?thesis by (simp add: C_OUTLINE_def C_INTERIOR_def)
qed

lemma init_flag:
  "init pf = Some pf0 \<Longrightarrow> init (pf\<lparr>bad_skel_flag := b\<rparr>) = Some (pf0\<lparr>bad_skel_flag := b\<rparr>)"
proof -
  have step: "init_step i (p\<lparr>bad_skel_flag := b\<rparr>) = (init_step i p)\<lparr>bad_skel_flag := b\<rparr>"
    for i p by (simp add: init_step_def)
  have "fold init_step is (pf\<lparr>bad_skel_flag := b\<rparr>) = (fold init_step is pf)\<lparr>bad_skel_flag := b\<rparr>"
    for "is"
    by (induction "is" arbitrary: pf) (simp_all add: step)
  then show "init pf = Some pf0 \<Longrightarrow> ?thesis"
    by (auto simp: init_def split: if_splits)
qed


subsection \<open>Evaluation on the concrete images\<close>

lemma vat_Cons:
  "vat (x # xs) i = (if i = 0 then Some x else if 0 < i then vat xs (i - 1) else None)"
  by (auto simp: vat_def nat_diff_distrib' nth_Cons' nat_eq_iff2)

lemma vat_replicate:
  "vat (replicate n z) i = (if 0 \<le> i \<and> i < int n then Some z else None)"
  by (auto simp: vat_def nat_less_iff)

lemma vat_Nil: "vat [] i = None"
  by (simp add: vat_def)

lemma img_bar_pixels:
  "at img_bar 64 32 = Some C_OUTLINE" "at img_bar 0 0 = Some (0, 0, 0)"
  by (simp_all add: at_def img_bar_def)

lemma img_bar_fill: "fill_stage reference_collaborators img_bar = Some img_bar"
  by (simp add: fill_stage_def img_bar_pixels)

lemma img_bar_not_ok: "silhouette_ok img_bar = Some False"
  by (simp add: silhouette_ok_def img_bar_pixels C_INTERIOR_def)

lemma img_bar_skeleton:
  "create_skeleton reference_collaborators pf img_bar
   = Some (replicate 11 (Point 0 0), pf\<lparr>bad_skel_flag := True\<rparr>, img_bar)"
  using img_bar_fill img_bar_not_ok by (rule create_skeleton_rejected)

lemma img_bar_flood_differs: "floodFill4 img_bar (Point 32 64) C_INTERIOR \<noteq> Some img_bar"
proof
  assume "floodFill4 img_bar (Point 32 64) C_INTERIOR = Some img_bar"
  from floodFill4_seed [OF this] show False
    by (simp add: img_bar_pixels C_INTERIOR_def C_OUTLINE_def)
qed

lemma img_dot_flood:
  "floodFill4 img_dot (Point 32 64) C_INTERIOR = Some img_dot_filled"
  by (simp add: floodFill4_def img_dot_filled_def img_dot_def flood.simps
      C_INTERIOR_def C_OUTLINE_def)

lemma img_dot_fill: "fill_stage reference_collaborators img_dot = Some img_dot_filled"
  using img_dot_flood
  by (simp add: fill_stage_def reference_collaborators_def at_def img_dot_def C_OUTLINE_def)

lemma img_dot_ok: "silhouette_ok img_dot_filled = Some True"
  by (simp add: silhouette_ok_def at_def img_dot_filled_def img_dot_def
      C_INTERIOR_def C_OUTLINE_def)

lemma img_dot_interior: "class_pixels img_dot_filled C_INTERIOR = [Point 64 32]"
  by code_simp

lemma img_dot_outline:
  "class_pixels img_dot_filled C_OUTLINE = [Point 63 32, Point 64 31, Point 64 33, Point 65 32]"
  by code_simp

lemma img_dot_highlight:
  "highlight_pixels img_dot_filled
   = Some ([Point 64 32] @ replicate 8191 (Point 0 0),
           [Point 63 32, Point 64 31, Point 64 33, Point 65 32] @ replicate 4092 (Point 0 0))"
  by (simp add: highlight_pixels_def img_dot_interior img_dot_outline)

lemma img_dot_head:
  "find_head_feature ([Point 64 32] @ replicate 8191 (Point 0 0)) 5 0 = Some (Point 69 32, 0)"
  by (simp add: find_head_feature_def head_loop.simps vat_Cons vat_replicate)

lemma img_dot_torso:
  "find_torso_feature ([Point 64 32] @ replicate 8191 (Point 0 0)) 5 (Point 69 32) 0 0
   = Some (Point 5 (- 500), 0)"
  by (simp add: find_torso_feature_def skip_above.simps torso_loop.simps vat_Cons vat_replicate cdiv_def)

lemma img_dot_skeleton:
  "create_skeleton reference_collaborators pf img_dot
   = Some ([Point 69 32, Point 5 (- 500)] @ replicate 9 (Point 0 0),
           pf\<lparr>bad_skel_flag := True\<rparr>, img_dot_filled)"
proof -
  have "\<not> is_within_bound (Point 5 (- 500)) 0 0
          (int (rows img_dot_filled)) (int (cols img_dot_filled))"
    by (simp add: is_within_bound_def)
  with img_dot_highlight img_dot_head img_dot_torso
  have "fit_landmarks reference_collaborators pf img_dot_filled
        = Some ([Point 69 32, Point 5 (- 500)] @ replicate 9 (Point 0 0),
                pf\<lparr>bad_skel_flag := True\<rparr>, img_dot_filled)"
    by (rule fit_landmarks_torso_fail)
  then show ?thesis
    using create_skeleton_accepted [OF img_dot_fill img_dot_ok] by simp
qed


lemma fold_paint_column:
  "fold (\<lambda>r d. d((r, c) := v)) rs d0 (r', c')
   = (if c' = c \<and> r' \<in> set rs then v else d0 (r', c'))"
  by (induction rs arbitrary: d0) auto

lemma img_col_flood_data:
  "flood 128 64 (0, 0, 0) C_INTERIOR [(64, 32)] (data img_col) = data img_col_filled"
proof -
  have "flood 128 64 (0, 0, 0) C_INTERIOR [(64, 32)] (data img_col)
        = fold (\<lambda>r d. d((r, 32) := C_INTERIOR)) (rev [37..<65]) (data img_col)"
    by (simp add: flood.simps img_col_def C_INTERIOR_def C_OUTLINE_def upt_rec_numeral)
  also have "\<dots> = data img_col_filled"
  proof (rule ext)
    fix p :: "nat \<times> nat"
    obtain r c where p: "p = (r, c)" by (cases p)
    have rs: "set (rev [37..<65]) = {37..<65::nat}"
      by (simp only: set_rev set_upt)
    show "fold (\<lambda>r d. d((r, 32) := C_INTERIOR)) (rev [37..<65]) (data img_col) p
          = data img_col_filled p"
      unfolding p fold_paint_column rs by (auto simp: img_col_filled_def)
  qed
  finally show ?thesis .
qed

lemma col_pixels_list:
  "col_pixels = [Point 37 32, Point 38 32, Point 39 32, Point 40 32, Point 41 32, Point 42 32,
     Point 43 32, Point 44 32, Point 45 32, Point 46 32, Point 47 32, Point 48 32, Point 49 32,
     Point 50 32, Point 51 32, Point 52 32, Point 53 32, Point 54 32, Point 55 32, Point 56 32,
     Point 57 32, Point 58 32, Point 59 32, Point 60 32, Point 61 32, Point 62 32, Point 63 32,
     Point 64 32]"
  by code_simp

lemma img_col_flood: "floodFill4 img_col (Point 32 64) C_INTERIOR = Some img_col_filled"
proof -
  have "data img_col (64, 32) = (0, 0, 0)"
    by (simp add: img_col_def)
  then show ?thesis
    using img_col_flood_data
    by (simp add: floodFill4_def img_col_filled_def) (simp add: img_col_def)
qed

lemma img_col_fill: "fill_stage reference_collaborators img_col = Some img_col_filled"
  using img_col_flood
  by (simp add: fill_stage_def reference_collaborators_def at_def img_col_def C_OUTLINE_def)

lemma img_col_ok: "silhouette_ok img_col_filled = Some True"
  by (simp add: silhouette_ok_def at_def img_col_filled_def img_col_def
      C_INTERIOR_def C_OUTLINE_def)

lemma img_col_interior: "class_pixels img_col_filled C_INTERIOR = col_pixels"
  by code_simp

lemma img_col_outline: "length (class_pixels img_col_filled C_OUTLINE) = 58"
  by code_simp

lemmas col_eval = col_vector_def col_pixels_list vat_Cons vat_replicate vat_Nil

lemma img_col_highlight:
  "highlight_pixels img_col_filled
   = Some (col_vector, class_pixels img_col_filled C_OUTLINE @ replicate 4038 (Point 0 0))"
  by (simp add: highlight_pixels_def img_col_interior img_col_outline col_vector_def Let_def)
     (simp add: col_pixels_list)

lemma col_head: "find_head_feature col_vector 5 0 = Some (Point 42 32, 0)"
  by (simp add: find_head_feature_def head_loop.simps col_eval)

lemma col_torso: "find_torso_feature col_vector 5 (Point 42 32) 0 0 = Some (Point 52 32, 10)"
  by (simp add: find_torso_feature_def skip_above.simps torso_loop.simps col_eval cdiv_def)

lemma col_waist: "find_waist_feature col_vector 5 (Point 52 32) 10 0 = Some (Point (- 5) 0, 0)"
  by (simp add: find_waist_feature_def waist_skip.simps widest_loop.simps col_eval cdiv_def)

lemma col_foot: "find_foot_feature col_vector 5 (Point (- 5) 0) corner 0 = Some (Point 1000 1000)"
  by (simp add: find_foot_feature_def skip_above.simps foot_loop.simps col_eval)

lemma col_shoulders:
  "set_shoulder_positions col_vector 5 (Point 52 32) 10 0
   = Some (Point 52 33, Point 52 31, 1, 0)"
  by (simp add: set_shoulder_positions_def shoulder_skip.simps widest_loop.simps col_eval
      cdiv_def Let_def)

lemma img_col_skeleton:
  "create_skeleton reference_collaborators pf img_col
   = Some ([Point 42 32, Point 52 32, Point (- 5) 0, Point 1000 1000, Point 1000 1000,
            Point 52 33, Point 52 31, Point 1000 1000, Point 1000 1000, Point 1000 1000,
            Point 1000 1000], pf, img_col_filled)"
proof -
  have b: "is_within_bound (Point 52 32) 0 0 (int (rows img_col_filled)) (int (cols img_col_filled))"
    by (simp add: is_within_bound_def img_col_filled_def img_col_def)
  have "fit_landmarks reference_collaborators pf img_col_filled
   = Some ([Point 42 32, Point 52 32, Point (- 5) 0, Point 1000 1000, Point 1000 1000,
            Point 52 33, Point 52 31, Point 1000 1000, Point 1000 1000, Point 1000 1000,
            Point 1000 1000], pf, img_col_filled)"
    using b
    by (simp add: fit_landmarks_def img_col_highlight col_head col_torso col_waist col_foot
        col_shoulders reference_collaborators_def)
  then show ?thesis
    using create_skeleton_accepted [OF img_col_fill img_col_ok] by simp
qed

lemma pf_box_origin_score:
  "feature_score (pf_box\<lparr>bad_skel_flag := True\<rparr>) (replicate 11 (Point 0 0)) = 11"
  by (simp add: feature_score_def score_step_def contains_def is_within_bound_def pf_box_def
      upt_rec numeral_eq_Suc)

subsection \<open>The index handed from detector to detector\<close>

lemma vat_SomeD: "vat sp i = Some p \<Longrightarrow> 0 \<le> i \<and> i < int (length sp) \<and> p = sp ! nat i"
  by (auto simp: vat_def split: if_splits)

lemma skip_above_ge: "skip_above sp b i = Some j \<Longrightarrow> i \<le> j"
proof (induction sp b i rule: skip_above.induct)
  case (1 sp b i)
  from "1.prems" obtain p where p: "vat sp i = Some p"
    by (cases "vat sp i") (simp_all add: skip_above.simps [of sp b i])
  show ?case
  proof (cases "px p < b \<and> p \<noteq> Point 0 0")
    case True
    with "1.prems" p have "skip_above sp b (i + 1) = Some j"
      by (simp add: skip_above.simps [of sp b i])
    from "1.IH" [OF p True this] show ?thesis by simp
  next
    case False
    with "1.prems" p show ?thesis by (simp add: skip_above.simps [of sp b i])
  qed
qed

lemma waist_skip_ge: "waist_skip sp b i = Some j \<Longrightarrow> i \<le> j"
proof (induction sp b i rule: waist_skip.induct)
  case (1 sp b i)
  from "1.prems" obtain p where p: "vat sp i = Some p"
    by (cases "vat sp i") (simp_all add: waist_skip.simps [of sp b i])
  show ?case
  proof (cases "px p < b \<and> p \<noteq> Point 0 0")
    case True
    show ?thesis
    proof (cases "b - px p \<ge> 8")
      case far: True
      with "1.prems" p True have "waist_skip sp b (i + 100 + 1) = Some j"
        by (simp add: waist_skip.simps [of sp b i])
      from "1.IH"(1) [OF p True far this] show ?thesis by simp
    next
      case near: False
      with "1.prems" p True have "waist_skip sp b (i + 1) = Some j"
        by (simp add: waist_skip.simps [of sp b i])
      from "1.IH"(2) [OF p True near this] show ?thesis by simp
    qed
  next
    case False
    with "1.prems" p show ?thesis by (simp add: waist_skip.simps [of sp b i])
  qed
qed

lemma shoulder_skip_ge: "shoulder_skip sp b i = Some j \<Longrightarrow> i \<le> j"
proof (induction sp b i rule: shoulder_skip.induct)
  case (1 sp b i)
  from "1.prems" obtain p where p: "vat sp i = Some p"
    by (cases "vat sp i") (simp_all add: shoulder_skip.simps [of sp b i])
  show ?case
  proof (cases "px p < b")
    case True
    with "1.prems" p have "shoulder_skip sp b (i + 1) = Some j"
      by (simp add: shoulder_skip.simps [of sp b i])
    from "1.IH" [OF p True this] show ?thesis by simp
  next
    case False
    with "1.prems" p show ?thesis by (simp add: shoulder_skip.simps [of sp b i])
  qed
qed

lemma torso_loop_index:
  "torso_loop sp l i cr d sh best idx = Some (sh', best', idx') \<Longrightarrow> idx' = idx \<or> i \<le> idx'"
proof (induction sp l i cr d sh best idx rule: torso_loop.induct)
  case (1 sp l i cr d sh best idx)
  note unfold = torso_loop.simps [of sp l i cr d sh best idx]
  from "1.prems" obtain p where p: "vat sp i = Some p"
    by (cases "vat sp i") (simp_all add: unfold)
  show ?case
  proof (cases "p \<noteq> Point 0 0 \<and> px p < l")
    case False
    with "1.prems" p show ?thesis by (auto simp: unfold)
  next
    case True
    with "1.prems" p obtain q where q: "vat sp (i + 1) = Some q"
      by (cases "vat sp (i + 1)") (simp_all add: unfold)
    consider (same) "px q = px cr"
      | (better) "px q \<noteq> px cr" "d < sh"
      | (worse) "px q \<noteq> px cr" "\<not> d < sh" by blast
    then show ?thesis
    proof cases
      case same
      with "1.prems" p q True
      have "torso_loop sp l (i + 1) cr (d + 1) sh best idx = Some (sh', best', idx')"
        by (simp add: unfold)
      from "1.IH"(1) [OF p True q same this] show ?thesis by auto
    next
      case better
      with "1.prems" p q True
      have "torso_loop sp l (i + 1) q 0 d p i = Some (sh', best', idx')"
        by (simp add: unfold)
      from "1.IH"(2) [OF p True q better this] show ?thesis by auto
    next
      case worse
      with "1.prems" p q True
      have "torso_loop sp l (i + 1) q 0 sh best idx = Some (sh', best', idx')"
        by (simp add: unfold)
      from "1.IH"(3) [OF p True q worse this] show ?thesis by auto
    qed
  qed
qed

lemma widest_loop_index:
  "widest_loop sp l i cr d lg best idx = Some (lg', best', idx') \<Longrightarrow> idx' = idx \<or> i \<le> idx'"
proof (induction sp l i cr d lg best idx rule: widest_loop.induct)
  case (1 sp l i cr d lg best idx)
  note unfold = widest_loop.simps [of sp l i cr d lg best idx]
  from "1.prems" obtain p where p: "vat sp i = Some p"
    by (cases "vat sp i") (simp_all add: unfold)
  show ?case
  proof (cases "p \<noteq> Point 0 0 \<and> px p < l")
    case False
    with "1.prems" p show ?thesis by (auto simp: unfold)
  next
    case True
    with "1.prems" p obtain q where q: "vat sp (i + 1) = Some q"
      by (cases "vat sp (i + 1)") (simp_all add: unfold)
    define e where "e = Point (px cr) (py cr + 1)"
    consider (same) "q = e"
      | (better) "q \<noteq> e" "d > lg"
      | (worse) "q \<noteq> e" "\<not> d > lg" by blast
    then show ?thesis
    proof cases
      case same
      with "1.prems" p q True
      have "widest_loop sp l (i + 1) e (d + 1) lg best idx = Some (lg', best', idx')"
        by (simp add: unfold e_def Let_def)
      from "1.IH"(1) [OF p True q e_def same this] show ?thesis by auto
    next
      case better
      with "1.prems" p q True
      have "widest_loop sp l (i + 1) q 0 d p i = Some (lg', best', idx')"
        by (simp add: unfold e_def Let_def)
      from "1.IH"(2) [OF p True q e_def better this] show ?thesis by auto
    next
      case worse
      with "1.prems" p q True
      have "widest_loop sp l (i + 1) q 0 lg best idx = Some (lg', best', idx')"
        by (simp add: unfold e_def Let_def)
      from "1.IH"(3) [OF p True q e_def worse this] show ?thesis by auto
    qed
  qed
qed

lemma find_torso_feature_index:
  assumes "find_torso_feature sp t h seed idx0 = Some (n, idx)"
  shows "idx = idx0 \<or> seed \<le> idx"
proof -
  from assms obtain i start sh best where
    s: "skip_above sp (px h + t) seed = Some i" and
    l: "torso_loop sp (if 48 < px h then px h + 1 else 48) i start 0 1000 start idx0
        = Some (sh, best, idx)"
    by (auto simp: find_torso_feature_def Let_def split: option.splits)
  from skip_above_ge [OF s] torso_loop_index [OF l] show ?thesis by auto
qed

lemma find_waist_feature_index:
  assumes "find_waist_feature sp t torso seed idx0 = Some (n, idx)"
  shows "idx = idx0 \<or> seed \<le> idx"
proof -
  from assms obtain i start lg best where
    s: "waist_skip sp ((if 64 < px torso then px torso + 1 else 64) + t) seed = Some i" and
    l: "widest_loop sp 80 i start 0 0 start idx0 = Some (lg, best, idx)"
    by (auto simp: find_waist_feature_def Let_def split: option.splits)
  from waist_skip_ge [OF s] widest_loop_index [OF l] show ?thesis by auto
qed

lemma set_shoulder_positions_index:
  assumes "set_shoulder_positions sp t torso seed idx0 = Some (ls, rs, aw, idx)"
  shows "idx = idx0 \<or> seed \<le> idx"
proof -
  from assms obtain i start lg best where
    s: "shoulder_skip sp (px torso) seed = Some i" and
    l: "widest_loop sp (px torso + t) i start 0 0 start idx0 = Some (lg, best, idx)"
    by (auto simp: set_shoulder_positions_def Let_def split: option.splits)
  from shoulder_skip_ge [OF s] widest_loop_index [OF l] show ?thesis by auto
qed

subsection \<open>The torso and waist detectors return on terminated vectors\<close>

lemma vat_below: "vat sp k = Some z \<Longrightarrow> 0 \<le> i \<Longrightarrow> i \<le> k \<Longrightarrow> \<exists>p. vat sp i = Some p"
  by (auto simp: vat_def split: if_splits)

lemma skip_above_returns:
  assumes "vat sp k = Some (Point 0 0)" "0 \<le> i" "i \<le> k"
  shows "\<exists>j. skip_above sp b i = Some j \<and> j \<le> k"
  using assms(2,3)
proof (induction "nat (k - i)" arbitrary: i)
  case 0
  then have "i = k" by simp
  with assms(1) show ?case by (simp add: skip_above.simps [of sp b k])
next
  case (Suc m)
  from vat_below [OF assms(1) Suc.prems] obtain p where p: "vat sp i = Some p" by blast
  show ?case
  proof (cases "px p < b \<and> p \<noteq> Point 0 0")
    case True
    have "m = nat (k - (i + 1))" "0 \<le> i + 1" "i + 1 \<le> k" using Suc.hyps(2) Suc.prems by auto
    from Suc.hyps(1) [OF this] p True show ?thesis
      by (simp add: skip_above.simps [of sp b i])
  next
    case False
    with p Suc.prems show ?thesis by (auto simp: skip_above.simps [of sp b i])
  qed
qed

lemma torso_loop_returns:
  assumes "vat sp k = Some (Point 0 0)" "0 \<le> i" "i \<le> k"
  shows "\<exists>res. torso_loop sp l i cr d sh best idx = Some res"
  using assms(2,3)
proof (induction "nat (k - i)" arbitrary: i cr d sh best idx)
  case 0
  then have "i = k" by simp
  with assms(1) show ?case by (simp add: torso_loop.simps [of sp l k])
next
  case (Suc m)
  note unfold = torso_loop.simps [of sp l i cr d sh best idx]
  from vat_below [OF assms(1) Suc.prems] obtain p where p: "vat sp i = Some p" by blast
  show ?case
  proof (cases "p \<noteq> Point 0 0 \<and> px p < l")
    case False
    with p show ?thesis by (auto simp: unfold)
  next
    case True
    have nxt: "m = nat (k - (i + 1))" "0 \<le> i + 1" "i + 1 \<le> k"
      using Suc.hyps(2) Suc.prems by auto
    from vat_below [OF assms(1) nxt(2,3)] obtain q where q: "vat sp (i + 1) = Some q" by blast
    from Suc.hyps(1) [OF nxt] p q True show ?thesis
      by (simp add: unfold)
  qed
qed

lemma find_torso_feature_returns:
  assumes "vat sp k = Some (Point 0 0)" "0 \<le> seed" "seed \<le> k"
  shows "\<exists>res. find_torso_feature sp t h seed idx0 = Some res"
proof -
  from assms have "0 \<le> k" by simp
  from vat_below [OF assms(1) _ this] obtain first where f: "vat sp 0 = Some first" by auto
  from skip_above_returns [OF assms] obtain i where
    i: "skip_above sp (px h + t) seed = Some i" "i \<le> k" by blast
  from skip_above_ge [OF i(1)] assms(2) have "0 \<le> i" by simp
  from vat_below [OF assms(1) this i(2)] obtain start where s: "vat sp i = Some start" by blast
  from torso_loop_returns [OF assms(1) \<open>0 \<le> i\<close> i(2)] obtain res where
    "torso_loop sp (if 48 < px h then px h + 1 else 48) i start 0 1000 start idx0 = Some res"
    by blast
  with f i(1) s show ?thesis
    by (cases res) (simp add: find_torso_feature_def Let_def)
qed

lemma waist_skip_returns:
  assumes "\<forall>j. k \<le> j \<and> j \<le> k + 100 \<longrightarrow> vat sp j = Some (Point 0 0)" "0 \<le> i" "i \<le> k + 100"
  shows "\<exists>j. waist_skip sp b i = Some j \<and> j \<le> k + 100"
  using assms(2,3)
proof (induction "nat (k + 100 - i)" arbitrary: i rule: less_induct)
  case less
  show ?case
  proof (cases "k \<le> i")
    case True
    with assms(1) less.prems have "vat sp i = Some (Point 0 0)" by simp
    with less.prems show ?thesis by (simp add: waist_skip.simps [of sp b i])
  next
    case False
    from assms(1) have "vat sp k = Some (Point 0 0)" by simp
    from vat_below [OF this less.prems(1)] False obtain p where p: "vat sp i = Some p" by auto
    show ?thesis
    proof (cases "px p < b \<and> p \<noteq> Point 0 0")
      case stop: False
      with p less.prems show ?thesis by (auto simp: waist_skip.simps [of sp b i])
    next
      case True
      show ?thesis
      proof (cases "b - px p \<ge> 8")
        case far: True
        have "nat (k + 100 - (i + 100 + 1)) < nat (k + 100 - i)" "0 \<le> i + 100 + 1"
          "i + 100 + 1 \<le> k + 100" using False less.prems by auto
        from less.hyps [OF this] p True far show ?thesis
          by (simp add: waist_skip.simps [of sp b i])
      next
        case near: False
        have "nat (k + 100 - (i + 1)) < nat (k + 100 - i)" "0 \<le> i + 1" "i + 1 \<le> k + 100"
          using False less.prems by auto
        from less.hyps [OF this] p True near show ?thesis
          by (simp add: waist_skip.simps [of sp b i])
      qed
    qed
  qed
qed

lemma widest_loop_returns:
  assumes "\<forall>j. k \<le> j \<and> j \<le> k + 100 \<longrightarrow> vat sp j = Some (Point 0 0)" "0 \<le> i" "i \<le> k + 100"
  shows "\<exists>res. widest_loop sp l i cr d lg best idx = Some res"
  using assms(2,3)
proof (induction "nat (k + 100 - i)" arbitrary: i cr d lg best idx rule: less_induct)
  case less
  note unfold = widest_loop.simps [of sp l i cr d lg best idx]
  show ?case
  proof (cases "k \<le> i")
    case True
    with assms(1) less.prems have "vat sp i = Some (Point 0 0)" by simp
    then show ?thesis by (simp add: unfold)
  next
    case False
    from assms(1) have k: "vat sp k = Some (Point 0 0)" by simp
    from vat_below [OF k less.prems(1)] False obtain p where p: "vat sp i = Some p" by auto
    show ?thesis
    proof (cases "p \<noteq> Point 0 0 \<and> px p < l")
      case stop: False
      with p show ?thesis by (auto simp: unfold)
    next
      case True
      have nxt: "nat (k + 100 - (i + 1)) < nat (k + 100 - i)" "0 \<le> i + 1" "i + 1 \<le> k + 100"
        using False less.prems by auto
      have "i + 1 \<le> k" using False by simp
      from vat_below [OF k nxt(2) this] obtain q where q: "vat sp (i + 1) = Some q" by blast
      from less.hyps [OF nxt] p q True show ?thesis
        by (simp add: unfold Let_def)
    qed
  qed
qed

lemma find_waist_feature_returns:
  assumes "\<forall>j. k \<le> j \<and> j \<le> k + 100 \<longrightarrow> vat sp j = Some (Point 0 0)" "0 \<le> seed" "seed \<le> k"
  shows "\<exists>res. find_waist_feature sp t torso seed idx0 = Some res"
proof -
  from assms(1) have k: "vat sp k = Some (Point 0 0)" by simp
  from assms have "0 \<le> k" by simp
  from vat_below [OF k _ this] obtain first where f: "vat sp 0 = Some first" by auto
  from assms(3) have "seed \<le> k + 100" by simp
  from waist_skip_returns [OF assms(1,2) this] obtain i where
    i: "waist_skip sp ((if 64 < px torso then px torso + 1 else 64) + t) seed = Some i"
       "i \<le> k + 100" by blast
  from waist_skip_ge [OF i(1)] assms(2) have i0: "0 \<le> i" by simp
  have "\<exists>start. vat sp i = Some start"
  proof (cases "k \<le> i")
    case True
    with assms(1) i(2) show ?thesis by simp
  next
    case False
    then have "i \<le> k" by simp
    from vat_below [OF k i0 this] show ?thesis .
  qed
  then obtain start where s: "vat sp i = Some start" by blast
  from widest_loop_returns [OF assms(1) i0 i(2)] obtain res where
    "widest_loop sp 80 i start 0 0 start idx0 = Some res" by blast
  with f i(1) s show ?thesis
    by (cases res) (simp add: find_waist_feature_def Let_def)
qed

subsection \<open>Detectors on exhausted pixel lists\<close>

lemma quiet_elbow:
  assumes "quiet E" "find_elbow_feature E sp torso waist shoulder aw hsq hn idx = Some (p, r)"
  shows "\<not> r"
  using assms(1) [unfolded quiet_def, THEN conjunct1, rule_format, OF assms(2)] .

lemma quiet_hand:
  assumes "quiet E" "find_hand_feature E sp ol waist elbow aw hsq hn img idx = Some (p, r)"
  shows "\<not> r"
  using assms(1) [unfolded quiet_def, THEN conjunct2, THEN conjunct1, rule_format, OF assms(2)] .

lemma quiet_draw:
  assumes "quiet E" "draw_skeleton E img ns = Some (drawn, r)"
  shows "\<not> r"
  using assms(1) [unfolded quiet_def, THEN conjunct2, THEN conjunct2, rule_format, OF assms(2)] .

lemma quiet_reference: "quiet reference_collaborators"
  by (simp add: quiet_def reference_collaborators_def)

lemma fit_landmarks_quiet:
  assumes "quiet E" "fit_landmarks E pf img = Some (ns, pf', drawn)"
      and "is_within_bound (ns ! 1) 0 0 (int (rows img)) (int (cols img))"
  shows "pf' = pf"
  using assms(2,3) unfolding fit_landmarks_def
  by (auto split: bind_splits prod.splits if_splits
      dest!: quiet_elbow [OF assms(1)] quiet_hand [OF assms(1)] quiet_draw [OF assms(1)])

lemma head_on_empty:
  assumes "vat sp 0 = Some (Point 0 0)"
  shows "find_head_feature sp t idx0 = Some (Point (1000 + t) 1000, idx0)"
  using assms by (simp add: find_head_feature_def head_loop.simps [of sp t 0])

lemma foot_on_exhausted:
  assumes "vat sp i = Some (Point 0 0)"
  shows "find_foot_feature sp t waist corner i = Some (Point 1000 1000)"
  using assms
  by (simp add: find_foot_feature_def Let_def skip_above.simps [of sp _ i]
      foot_loop.simps [of sp corner i])

lemma waist_on_exhausted:
  assumes "vat sp i = Some (Point 0 0)"
  shows "find_waist_feature sp t torso i idx0 = Some (Point (- t) 0, idx0)"
proof -
  from assms have "0 < length sp" by (auto simp: vat_def split: if_splits)
  then obtain first where "vat sp 0 = Some first" by (auto simp: vat_def)
  with assms show ?thesis
    by (simp add: find_waist_feature_def Let_def waist_skip.simps [of sp _ i]
        widest_loop.simps [of sp 80 i] cdiv_def)
qed

subsection \<open>Claims about the fitter\<close>

text \<open>
  Claim C1, as the code has it. When the validity test fails, \<^verbatim>\<open>create_skeleton\<close> runs no
  detector, raises the failure flag and returns the value-initialised vector, whose eleven
  landmarks are all (0,0) and not (1000,1000). \<^verbatim>\<open>judge_features\<close> scores that skeleton 0 and
  answers "Noise" for every range model none of whose eleven boxes contains (0,0), as is the
  case for the initial range model.
\<close>

theorem invalid_silhouette_default_skeleton:
  assumes "fill_stage E contoursonly = Some filled" "silhouette_ok filled = Some False"
      and "length (min_range pf) \<ge> 11" "length (max_range pf) \<ge> 11"
      and "\<forall>i<11. \<not> contains pf (replicate 11 (Point 0 0)) i"
  shows "create_skeleton E pf contoursonly
           = Some (replicate 11 (Point 0 0), pf\<lparr>bad_skel_flag := True\<rparr>, filled)
       \<and> feature_score (pf\<lparr>bad_skel_flag := True\<rparr>) (replicate 11 (Point 0 0)) = 0
       \<and> judge_features (pf\<lparr>bad_skel_flag := True\<rparr>) (replicate 11 (Point 0 0))
           = Some ''Noise''"
proof -
  have "{i. i < 11 \<and> contains (pf\<lparr>bad_skel_flag := True\<rparr>) (replicate 11 (Point 0 0)) i} = {}"
    using assms(5) by (auto simp: contains_def)
  then have "feature_score (pf\<lparr>bad_skel_flag := True\<rparr>) (replicate 11 (Point 0 0)) = 0"
    by (simp add: feature_score_card)
  then show ?thesis
    using create_skeleton_rejected [OF assms(1,2)] assms(3,4)
    by (simp add: judge_features_def verdict_of_def)
qed

theorem invalid_silhouette_default_skeleton_witness:
  "silhouette_ok img_bar = Some False
   \<and> create_skeleton reference_collaborators pf_init img_bar
       = Some (replicate 11 (Point 0 0), pf_init\<lparr>bad_skel_flag := True\<rparr>, img_bar)
   \<and> judge_features (pf_init\<lparr>bad_skel_flag := True\<rparr>) (replicate 11 (Point 0 0))
       = Some ''Noise''"
proof -
  have l: "length (min_range pf_init) \<ge> 11" "length (max_range pf_init) \<ge> 11"
    by (simp_all add: pf_init_def)
  have h: "\<forall>i<11. \<not> contains pf_init (replicate 11 (Point 0 0)) i"
    by (simp add: contains_def is_within_bound_def pf_init_def)
  from invalid_silhouette_default_skeleton [OF img_bar_fill img_bar_not_ok l h] img_bar_not_ok
  show ?thesis by simp
qed

text \<open>
  The claim as it is written fails on \<open>img_bar\<close>: the validity test fails, and the skeleton
  returned is eleven times (0,0), not (1000,1000); a range model whose boxes contain (0,0)
  scores it 11 and answers "Pedestrian".
\<close>

theorem default_skeleton_counterexample:
  "silhouette_ok img_bar = Some False
   \<and> create_skeleton reference_collaborators pf_box img_bar
       = Some (replicate 11 (Point 0 0), pf_box\<lparr>bad_skel_flag := True\<rparr>, img_bar)
   \<and> replicate 11 (Point 0 0) \<noteq> replicate 11 (Point 1000 1000)
   \<and> judge_features (pf_box\<lparr>bad_skel_flag := True\<rparr>) (replicate 11 (Point 0 0))
       = Some ''Pedestrian''"
  by (simp add: img_bar_not_ok img_bar_skeleton judge_features_def pf_box_origin_score
      verdict_of_def) (simp add: pf_box_def)

text \<open>
  Claim C2, as the code has it. The fitter runs the flood fill exactly when the centre pixel
  (row 64, column 32) is not an outline pixel. It rejects the silhouette (returns the
  value-initialised skeleton with the failure flag raised) exactly when, after that stage,
  pixel (0,0) has the interior colour or the centre pixel has the outline colour; with the
  reference flood fill the latter is the same as the centre pixel not being interior.
\<close>

theorem validity_gate:
  assumes "create_skeleton E pf contoursonly = Some (ns, pf', drawn)"
  shows "\<exists>filled. fill_stage E contoursonly = Some filled
         \<and> (if at contoursonly 64 32 = Some C_OUTLINE then filled = contoursonly
            else floodFill E contoursonly (Point 32 64) C_INTERIOR = Some filled)
         \<and> (ns = replicate 11 (Point 0 0) \<and> bad_skel_flag pf' \<longleftrightarrow>
              at filled 0 0 = Some C_INTERIOR \<or> at filled 64 32 = Some C_OUTLINE)
         \<and> (floodFill E = floodFill4 \<longrightarrow>
              (ns = replicate 11 (Point 0 0) \<and> bad_skel_flag pf' \<longleftrightarrow>
                 at filled 0 0 = Some C_INTERIOR \<or> at filled 64 32 \<noteq> Some C_INTERIOR))"
proof -
  from create_skeleton_cases [OF assms] obtain filled where
    f: "fill_stage E contoursonly = Some filled" and
    c: "if silhouette_ok filled = Some True
        then fit_landmarks E pf filled = Some (ns, pf', drawn)
        else silhouette_ok filled = Some False
             \<and> ns = replicate 11 (Point 0 0)
             \<and> pf' = pf\<lparr>bad_skel_flag := True\<rparr> \<and> drawn = filled"
    by blast
  have rej: "ns = replicate 11 (Point 0 0) \<and> bad_skel_flag pf' \<longleftrightarrow>
             at filled 0 0 = Some C_INTERIOR \<or> at filled 64 32 = Some C_OUTLINE"
  proof (cases "silhouette_ok filled = Some True")
    case True
    with c have "ns \<noteq> replicate 11 (Point 0 0)" by (simp add: fit_landmarks_not_default)
    with silhouette_ok_iff [OF True] show ?thesis by simp
  next
    case False
    with c have ok: "silhouette_ok filled = Some False" and "ns = replicate 11 (Point 0 0)"
      "bad_skel_flag pf'" by simp_all
    with silhouette_ok_iff [OF ok] show ?thesis by simp
  qed
  show ?thesis
    using f fill_stage_cases [OF f] rej fill_stage_seed [OF f] by (intro exI [of _ filled]) auto
qed


theorem validity_gate_witness:
  "create_skeleton reference_collaborators pf_box img_dot
     = Some ([Point 69 32, Point 5 (- 500)] @ replicate 9 (Point 0 0),
             pf_box\<lparr>bad_skel_flag := True\<rparr>, img_dot_filled)
   \<and> (\<exists>filled. fill_stage reference_collaborators img_dot = Some filled
         \<and> floodFill4 img_dot (Point 32 64) C_INTERIOR = Some filled
         \<and> at filled 0 0 \<noteq> Some C_INTERIOR \<and> at filled 64 32 = Some C_INTERIOR)"
proof -
  have ne: "at img_dot 64 32 \<noteq> Some C_OUTLINE"
    by (simp add: at_def img_dot_def C_OUTLINE_def)
  have nd: "[Point 69 32, Point 5 (- 500)] @ replicate 9 (Point 0 0) \<noteq> replicate 11 (Point 0 0)"
    by (simp add: numeral_eq_Suc)
  have ff: "floodFill reference_collaborators = floodFill4"
    by (simp add: reference_collaborators_def)
  from validity_gate [OF img_dot_skeleton [of pf_box]] ne nd ff
  have "\<exists>filled. fill_stage reference_collaborators img_dot = Some filled
         \<and> floodFill4 img_dot (Point 32 64) C_INTERIOR = Some filled
         \<and> at filled 0 0 \<noteq> Some C_INTERIOR \<and> at filled 64 32 = Some C_INTERIOR"
    by auto
  with img_dot_skeleton [of pf_box] show ?thesis by simp
qed

text \<open>
  The claim as it is written fails in both directions. The centre of \<open>img_bar\<close> is an outline
  pixel, and the image behind the pointer after the call is the input itself, which a flood
  from the centre would have changed. The centre of \<open>img_dot\<close> is not an outline pixel, and
  the image is flooded.
\<close>

theorem flood_condition_counterexample:
  "at img_bar 64 32 = Some C_OUTLINE
   \<and> fill_stage reference_collaborators img_bar = Some img_bar
   \<and> create_skeleton reference_collaborators pf_box img_bar
       = Some (replicate 11 (Point 0 0), pf_box\<lparr>bad_skel_flag := True\<rparr>, img_bar)
   \<and> floodFill4 img_bar (Point 32 64) C_INTERIOR \<noteq> Some img_bar
   \<and> at img_dot 64 32 = Some (0, 0, 0)
   \<and> fill_stage reference_collaborators img_dot = floodFill4 img_dot (Point 32 64) C_INTERIOR
   \<and> floodFill4 img_dot (Point 32 64) C_INTERIOR = Some img_dot_filled
   \<and> at img_dot_filled 64 32 = Some C_INTERIOR"
  by (simp add: img_bar_pixels img_bar_fill img_bar_skeleton img_bar_flood_differs
      img_dot_fill img_dot_flood)
     (simp add: at_def img_dot_def img_dot_filled_def)

text \<open>
  Claim C9. If the torso landmark (index 1) is not inside \<open>[0, rows) \<times> [0, cols)\<close> of the
  silhouette, the fitter raises the failure flag and runs no later detector: entries 2 to 10
  of the skeleton keep their initial value (0,0), the image is not drawn on, and the result
  does not depend on the elbow, hand and drawing collaborators.
\<close>

theorem torso_gate:
  assumes "create_skeleton E pf contoursonly = Some (ns, pf', drawn)"
      and "fill_stage E contoursonly = Some filled"
      and "\<not> is_within_bound (ns ! 1) 0 0 (int (rows filled)) (int (cols filled))"
  shows "bad_skel_flag pf'
       \<and> ns = [ns ! 0, ns ! 1] @ replicate 9 (Point 0 0)
       \<and> (\<forall>i \<in> {2..10}. ns ! i = Point 0 0)
       \<and> drawn = filled
       \<and> (\<forall>E' :: collaborators. floodFill E' = floodFill E \<longrightarrow>
             create_skeleton E' pf contoursonly = create_skeleton E pf contoursonly)"
proof -
  from create_skeleton_cases [OF assms(1)] assms(2) have
    c: "if silhouette_ok filled = Some True
        then fit_landmarks E pf filled = Some (ns, pf', drawn)
        else silhouette_ok filled = Some False
             \<and> ns = replicate 11 (Point 0 0)
             \<and> pf' = pf\<lparr>bad_skel_flag := True\<rparr> \<and> drawn = filled"
    by auto
  have ok: "silhouette_ok filled = Some True"
  proof (rule ccontr)
    assume n: "silhouette_ok filled \<noteq> Some True"
    with c have "silhouette_ok filled = Some False" and ns: "ns = replicate 11 (Point 0 0)"
      by simp_all
    from silhouette_ok_dims [OF this(1)] ns assms(3) show False
      by (simp add: is_within_bound_def)
  qed
  with c have fit: "fit_landmarks E pf filled = Some (ns, pf', drawn)" by simp
  from fit_landmarks_cases [OF fit] obtain sp ol n0 ih n1 it where
    hp: "highlight_pixels filled = Some (sp, ol)" and
    hd: "find_head_feature sp 5 0 = Some (n0, ih)" and
    to: "find_torso_feature sp 5 n0 ih 0 = Some (n1, it)" and
    n: "ns ! 0 = n0" "ns ! 1 = n1" and
    b: "if is_within_bound n1 0 0 (int (rows filled)) (int (cols filled))
        then (\<exists>raised. pf' = pf\<lparr>bad_skel_flag := bad_skel_flag pf \<or> raised\<rparr>)
        else ns = [n0, n1] @ replicate 9 (Point 0 0)
             \<and> pf' = pf\<lparr>bad_skel_flag := True\<rparr> \<and> drawn = filled"
    by blast
  from assms(3) n have out: "\<not> is_within_bound n1 0 0 (int (rows filled)) (int (cols filled))"
    by simp
  with b have r: "ns = [n0, n1] @ replicate 9 (Point 0 0)" "pf' = pf\<lparr>bad_skel_flag := True\<rparr>"
    "drawn = filled" by simp_all
  have nodes: "\<forall>i \<in> {2..10}. ns ! i = Point 0 0"
  proof
    fix i :: nat assume "i \<in> {2..10}"
    then have "2 \<le> i" "i - 2 < 9" by auto
    then show "ns ! i = Point 0 0"
      unfolding r(1) by (simp add: nth_append nth_Cons')
  qed
  have indep: "\<forall>E' :: collaborators. floodFill E' = floodFill E \<longrightarrow>
             create_skeleton E' pf contoursonly = create_skeleton E pf contoursonly"
  proof (intro allI impI)
    fix E' :: collaborators assume e: "floodFill E' = floodFill E"
    have "fill_stage E' contoursonly = fill_stage E contoursonly"
      unfolding fill_stage_def e by (rule refl)
    then have "fill_stage E' contoursonly = Some filled"
      using assms(2) by simp
    then have "create_skeleton E' pf contoursonly = fit_landmarks E' pf filled"
      using ok by (rule create_skeleton_accepted)
    also have "\<dots> = Some ([n0, n1] @ replicate 9 (Point 0 0), pf\<lparr>bad_skel_flag := True\<rparr>, filled)"
      using hp hd to out by (rule fit_landmarks_torso_fail)
    finally show "create_skeleton E' pf contoursonly = create_skeleton E pf contoursonly"
      using assms(1) r by simp
  qed
  have "ns = [ns ! 0, ns ! 1] @ replicate 9 (Point 0 0)"
    using r(1) by simp
  moreover have "bad_skel_flag pf'" using r(2) by simp
  ultimately show ?thesis using r(3) nodes indep by blast
qed


theorem torso_gate_witness:
  "create_skeleton reference_collaborators pf_box img_dot
     = Some ([Point 69 32, Point 5 (- 500)] @ replicate 9 (Point 0 0),
             pf_box\<lparr>bad_skel_flag := True\<rparr>, img_dot_filled)
   \<and> \<not> is_within_bound (Point 5 (- 500)) 0 0 128 64
   \<and> bad_skel_flag (pf_box\<lparr>bad_skel_flag := True\<rparr>)
   \<and> ([Point 69 32, Point 5 (- 500)] @ replicate 9 (Point 0 0)) ! 2 = Point 0 0
   \<and> ([Point 69 32, Point 5 (- 500)] @ replicate 9 (Point 0 0)) ! 10 = Point 0 0"
proof -
  have out: "\<not> is_within_bound (([Point 69 32, Point 5 (- 500)] @ replicate 9 (Point 0 0)) ! 1)
               0 0 (int (rows img_dot_filled)) (int (cols img_dot_filled))"
    by (simp add: is_within_bound_def)
  from torso_gate [OF img_dot_skeleton [of pf_box] img_dot_fill out]
  have "\<forall>i \<in> {2..10}. ([Point 69 32, Point 5 (- 500)] @ replicate 9 (Point 0 0)) ! i = Point 0 0"
    by blast
  then have "([Point 69 32, Point 5 (- 500)] @ replicate 9 (Point 0 0)) ! 2 = Point 0 0"
    "([Point 69 32, Point 5 (- 500)] @ replicate 9 (Point 0 0)) ! 10 = Point 0 0"
    by simp_all
  with img_dot_skeleton [of pf_box] show ?thesis
    by (simp add: is_within_bound_def)
qed

text \<open>
  Claim C10. If the object is constructed with \<^verbatim>\<open>bad_skel_flag\<close> already true, \<^verbatim>\<open>train\<close>
  discards the skeleton of the first training image whatever the fit returns: \<^verbatim>\<open>init\<close> does
  not reset the flag, \<^verbatim>\<open>create_skeleton\<close> never lowers it, and it is reset only after the
  test at the end of the first iteration. Training on the images is then training on the
  images without the first one.
\<close>

theorem train_discards_first_image_when_flag_preset:
  assumes "bad_skel_flag pf" "init pf = Some pf0"
      and "create_skeleton E pf0 contoursonly = Some (ns, pf1, drawn)"
  shows "train_body E pf0 contoursonly = Some (pf0\<lparr>bad_skel_flag := False\<rparr>)
       \<and> train E pf (contoursonly # rest) = train E (pf\<lparr>bad_skel_flag := False\<rparr>) rest"
proof -
  have "bad_skel_flag pf0"
    using assms(1,2) fold_init_step_rest [of "[0..<11]" pf]
    by (auto simp: init_def split: if_splits)
  with create_skeleton_flag [OF assms(3)] have "pf1 = pf0" by auto
  with assms(3) \<open>bad_skel_flag pf0\<close>
  have body: "train_body E pf0 contoursonly = Some (pf0\<lparr>bad_skel_flag := False\<rparr>)"
    by (simp add: train_body_def)
  then show ?thesis using assms(2) init_flag [OF assms(2), of False]
    by (simp add: train_def)
qed


theorem train_discards_first_image_when_flag_preset_witness:
  "bad_skel_flag (pf_box\<lparr>bad_skel_flag := True\<rparr>)
   \<and> init (pf_box\<lparr>bad_skel_flag := True\<rparr>) = Some (pf_init\<lparr>bad_skel_flag := True\<rparr>)
   \<and> create_skeleton reference_collaborators pf_init img_col
       = Some ([Point 42 32, Point 52 32, Point (- 5) 0, Point 1000 1000, Point 1000 1000,
                Point 52 33, Point 52 31, Point 1000 1000, Point 1000 1000, Point 1000 1000,
                Point 1000 1000], pf_init, img_col_filled)
   \<and> \<not> bad_skel_flag pf_init
   \<and> train reference_collaborators (pf_box\<lparr>bad_skel_flag := True\<rparr>) [img_col] = Some pf_init"
proof -
  have f: "bad_skel_flag (pf_box\<lparr>bad_skel_flag := True\<rparr>)" by simp
  have i: "init (pf_box\<lparr>bad_skel_flag := True\<rparr>) = Some (pf_init\<lparr>bad_skel_flag := True\<rparr>)"
    by (simp add: init_def init_step_def pf_box_def pf_init_def upt_rec numeral_eq_Suc)
  have e: "pf_init\<lparr>bad_skel_flag := False\<rparr> = pf_init"
    by (simp add: pf_init_def)
  from train_discards_first_image_when_flag_preset
         [OF f i img_col_skeleton [of "pf_init\<lparr>bad_skel_flag := True\<rparr>"], of "[]"]
       init_flag [OF i, of False]
  have "train reference_collaborators (pf_box\<lparr>bad_skel_flag := True\<rparr>) [img_col] = Some pf_init"
    by (simp add: train_def e)
  with f i img_col_skeleton [of pf_init] show ?thesis
    by (simp add: pf_init_def)
qed


subsection \<open>Claims about the detectors\<close>

text \<open>
  Claim C4, as the code has it. No detector of the integer core raises the failure flag:
  with collaborators whose handlers do not run, \<^verbatim>\<open>create_skeleton\<close> returns with the flag
  raised exactly when it was raised before, or the validity test failed, or the torso
  landmark is outside the image. Given an empty pixel list the head detector returns
  (1000 + threshold, 1000); with its seed index on the (0,0) terminator the foot detector
  returns the sentinel (1000,1000) and the waist detector returns (-threshold, 0).
\<close>

theorem detectors_never_raise_flag:
  assumes "vat sp0 0 = Some (Point 0 0)"
      and "vat sp i = Some (Point 0 0)"
      and "quiet E"
      and "create_skeleton E pf contoursonly = Some (ns, pf', drawn)"
      and "fill_stage E contoursonly = Some filled"
  shows "find_head_feature sp0 t idx0 = Some (Point (1000 + t) 1000, idx0)
       \<and> find_foot_feature sp t waist corner i = Some (Point 1000 1000)
       \<and> find_waist_feature sp t torso i idx0 = Some (Point (- t) 0, idx0)
       \<and> (bad_skel_flag pf' \<longleftrightarrow>
            bad_skel_flag pf \<or> ns = replicate 11 (Point 0 0)
            \<or> \<not> is_within_bound (ns ! 1) 0 0 (int (rows filled)) (int (cols filled)))"
proof -
  from create_skeleton_cases [OF assms(4)] assms(5) have
    c: "if silhouette_ok filled = Some True
        then fit_landmarks E pf filled = Some (ns, pf', drawn)
        else silhouette_ok filled = Some False
             \<and> ns = replicate 11 (Point 0 0)
             \<and> pf' = pf\<lparr>bad_skel_flag := True\<rparr> \<and> drawn = filled"
    by auto
  have flag: "bad_skel_flag pf' \<longleftrightarrow>
            bad_skel_flag pf \<or> ns = replicate 11 (Point 0 0)
            \<or> \<not> is_within_bound (ns ! 1) 0 0 (int (rows filled)) (int (cols filled))"
  proof (cases "silhouette_ok filled = Some True")
    case False
    with c show ?thesis by simp
  next
    case True
    with c have fit: "fit_landmarks E pf filled = Some (ns, pf', drawn)" by simp
    have nd: "ns \<noteq> replicate 11 (Point 0 0)" using fit by (rule fit_landmarks_not_default)
    show ?thesis
    proof (cases "is_within_bound (ns ! 1) 0 0 (int (rows filled)) (int (cols filled))")
      case True
      with fit_landmarks_quiet [OF assms(3) fit] nd show ?thesis by simp
    next
      case False
      from fit_landmarks_cases [OF fit] False have "pf' = pf\<lparr>bad_skel_flag := True\<rparr>"
        by auto
      with False show ?thesis by simp
    qed
  qed
  with head_on_empty [OF assms(1)] foot_on_exhausted [OF assms(2)]
    waist_on_exhausted [OF assms(2)]
  show ?thesis by blast
qed

theorem detectors_never_raise_flag_witness:
  "find_head_feature (replicate 8192 (Point 0 0)) 5 0 = Some (Point 1005 1000, 0)
   \<and> find_foot_feature col_vector 5 (Point (- 5) 0) (Point 127 1) 28 = Some (Point 1000 1000)
   \<and> find_waist_feature col_vector 5 (Point 52 32) 28 0 = Some (Point (- 5) 0, 0)
   \<and> quiet reference_collaborators
   \<and> create_skeleton reference_collaborators pf_init img_col
       = Some ([Point 42 32, Point 52 32, Point (- 5) 0, Point 1000 1000, Point 1000 1000,
                Point 52 33, Point 52 31, Point 1000 1000, Point 1000 1000, Point 1000 1000,
                Point 1000 1000], pf_init, img_col_filled)
   \<and> \<not> bad_skel_flag pf_init"
proof -
  have e: "vat (replicate 8192 (Point 0 0)) 0 = Some (Point 0 0)"
    by (simp add: vat_replicate)
  have x: "vat col_vector 28 = Some (Point 0 0)"
    by (simp add: col_eval)
  from detectors_never_raise_flag
         [OF e x quiet_reference img_col_skeleton [of pf_init] img_col_fill,
          of 5 0 "Point (- 5) 0" "Point 127 1" "Point 52 32"]
  show ?thesis
    by (simp add: quiet_reference img_col_skeleton) (simp add: pf_init_def)
qed

text \<open>
  The claim as it is written fails on the empty pixel list: the head detector adds the
  threshold to the row of its not-found value, and the waist detector subtracts it from
  the terminator; neither result is (1000,1000).
\<close>

theorem detector_sentinel_counterexample:
  "vat (replicate 8192 (Point 0 0)) 0 = Some (Point 0 0)
   \<and> find_head_feature (replicate 8192 (Point 0 0)) 5 0 = Some (Point 1005 1000, 0)
   \<and> Point 1005 1000 \<noteq> Point 1000 1000
   \<and> find_waist_feature (replicate 8192 (Point 0 0)) 5 (Point 1005 1000) 0 0
       = Some (Point (- 5) 0, 0)
   \<and> Point (- 5) 0 \<noteq> Point 1000 1000"
  by (simp add: vat_replicate find_head_feature_def head_loop.simps find_waist_feature_def
      waist_skip.simps widest_loop.simps cdiv_def)

text \<open>
  Claim C7, as the code has it. The torso, waist and shoulder detectors write their index
  out-parameter only when their scan records a row. The value after the call is either
  the value the variable had at the call (0 in \<^verbatim>\<open>create_skeleton\<close>) or an index greater than
  or equal to the seed received. The torso and waist detectors do return when the vector
  holds the (0,0) terminator at an index at or after the seed and in the 100 entries that
  follow it, as the vector of \<^verbatim>\<open>create_skeleton\<close> does.
\<close>

theorem seed_index_kept_or_advanced:
  "(find_torso_feature sp t head seed idx0 = Some (n1, idx1) \<longrightarrow> idx1 = idx0 \<or> seed \<le> idx1)
   \<and> (find_waist_feature sp t torso seed idx0 = Some (n2, idx2) \<longrightarrow> idx2 = idx0 \<or> seed \<le> idx2)
   \<and> (set_shoulder_positions sp t torso seed idx0 = Some (ls, rs, aw, idx3) \<longrightarrow>
         idx3 = idx0 \<or> seed \<le> idx3)
   \<and> ((\<forall>j. k \<le> j \<and> j \<le> k + 100 \<longrightarrow> vat sp j = Some (Point 0 0)) \<and> 0 \<le> seed \<and> seed \<le> k \<longrightarrow>
         (\<exists>res. find_torso_feature sp t head seed idx0 = Some res)
         \<and> (\<exists>res. find_waist_feature sp t torso seed idx0 = Some res))"
proof (intro conjI impI)
  assume "find_torso_feature sp t head seed idx0 = Some (n1, idx1)"
  then show "idx1 = idx0 \<or> seed \<le> idx1" by (rule find_torso_feature_index)
next
  assume "find_waist_feature sp t torso seed idx0 = Some (n2, idx2)"
  then show "idx2 = idx0 \<or> seed \<le> idx2" by (rule find_waist_feature_index)
next
  assume "set_shoulder_positions sp t torso seed idx0 = Some (ls, rs, aw, idx3)"
  then show "idx3 = idx0 \<or> seed \<le> idx3" by (rule set_shoulder_positions_index)
next
  assume a: "(\<forall>j. k \<le> j \<and> j \<le> k + 100 \<longrightarrow> vat sp j = Some (Point 0 0)) \<and> 0 \<le> seed \<and> seed \<le> k"
  then have "vat sp k = Some (Point 0 0)" "0 \<le> seed" "seed \<le> k" by simp_all
  then show "\<exists>res. find_torso_feature sp t head seed idx0 = Some res"
    by (rule find_torso_feature_returns)
next
  assume a: "(\<forall>j. k \<le> j \<and> j \<le> k + 100 \<longrightarrow> vat sp j = Some (Point 0 0)) \<and> 0 \<le> seed \<and> seed \<le> k"
  then have "\<forall>j. k \<le> j \<and> j \<le> k + 100 \<longrightarrow> vat sp j = Some (Point 0 0)"
    "0 \<le> seed" "seed \<le> k" by simp_all
  then show "\<exists>res. find_waist_feature sp t torso seed idx0 = Some res"
    by (rule find_waist_feature_returns)
qed

theorem seed_index_kept_or_advanced_witness:
  "find_torso_feature col_vector 5 (Point 42 32) 0 7 = Some (Point 52 32, 10)
   \<and> ((10::int) = 7 \<or> (0::int) \<le> 10)
   \<and> find_waist_feature col_vector 5 (Point 52 32) 10 0 = Some (Point (- 5) 0, 0)
   \<and> set_shoulder_positions col_vector 5 (Point 52 32) 10 0
       = Some (Point 52 33, Point 52 31, 1, 0)
   \<and> vat col_vector 28 = Some (Point 0 0) \<and> vat col_vector 128 = Some (Point 0 0)
   \<and> (\<exists>res. find_waist_feature col_vector 5 (Point 52 32) 10 0 = Some res)"
proof -
  have t: "find_torso_feature col_vector 5 (Point 42 32) 0 7 = Some (Point 52 32, 10)"
    by (simp add: find_torso_feature_def skip_above.simps torso_loop.simps col_eval cdiv_def)
  have len: "length col_pixels = 28" by (simp add: col_pixels_def)
  have z: "\<forall>j. 28 \<le> j \<and> j \<le> 28 + 100 \<longrightarrow> vat col_vector j = Some (Point 0 0)"
    by (auto simp: vat_def col_vector_def nth_append len)
  from seed_index_kept_or_advanced
         [of col_vector 5 "Point 42 32" 10 0 "Point 52 32" 10 "Point 52 32" "Point (- 5) 0" 0
             "Point 52 33" "Point 52 31" 1 0 28] z
  have r: "\<exists>res. find_waist_feature col_vector 5 (Point 52 32) 10 0 = Some res"
    by simp
  from seed_index_kept_or_advanced
         [of col_vector 5 "Point 42 32" 0 7 "Point 52 32" 10 "Point 52 32" "Point (- 5) 0" 0
             "Point 52 33" "Point 52 31" 1 0 28]
       t col_waist col_shoulders r z
  show ?thesis by simp
qed

text \<open>
  The claim as it is written fails inside one fit. For \<open>img_col\<close> the torso detector returns
  index 10; the waist and the shoulder detector receive it as their seed and both leave
  their index at 0.
\<close>

theorem seed_index_counterexample:
  "highlight_pixels img_col_filled
     = Some (col_vector, class_pixels img_col_filled C_OUTLINE @ replicate 4038 (Point 0 0))
   \<and> find_head_feature col_vector 5 0 = Some (Point 42 32, 0)
   \<and> find_torso_feature col_vector 5 (Point 42 32) 0 0 = Some (Point 52 32, 10)
   \<and> find_waist_feature col_vector 5 (Point 52 32) 10 0 = Some (Point (- 5) 0, 0)
   \<and> set_shoulder_positions col_vector 5 (Point 52 32) 10 0
       = Some (Point 52 33, Point 52 31, 1, 0)
   \<and> \<not> (10::int) \<le> 0"
  by (simp add: img_col_highlight col_head col_torso col_waist col_shoulders)



section \<open>The torso detector on lists of rows: proofs\<close>

lemma vat_append_at:
  "vat (pre @ x # rest) (int (length pre)) = Some x"
  by (simp add: vat_def)

lemma vat_append_next:
  "vat (pre @ x # y # rest) (int (length pre) + 1) = Some y"
proof -
  have "nat (int (length pre) + 1) = Suc (length pre)" by simp
  then show ?thesis by (simp add: vat_def nth_append)
qed

lemma skip_above_block:
  assumes "\<forall>p \<in> set blk. px p < b \<and> p \<noteq> Point 0 0"
  shows "skip_above (pre @ blk @ rest) b (int (length pre))
         = skip_above (pre @ blk @ rest) b (int (length pre + length blk))"
  using assms
proof (induction blk arbitrary: pre)
  case Nil
  then show ?case by simp
next
  case (Cons x xs)
  have "skip_above (pre @ (x # xs) @ rest) b (int (length pre))
        = skip_above (pre @ (x # xs) @ rest) b (int (length pre) + 1)"
    using Cons.prems vat_append_at [of pre x "xs @ rest"]
    by (subst skip_above.simps) simp
  also have "\<dots> = skip_above ((pre @ [x]) @ xs @ rest) b (int (length (pre @ [x])))"
    by (simp add: add.commute)
  also have "\<dots> = skip_above ((pre @ [x]) @ xs @ rest) b (int (length (pre @ [x]) + length xs))"
    using Cons.prems by (intro Cons.IH) simp
  finally show ?case by simp
qed

lemma skip_above_stop:
  assumes "\<not> (px q < b \<and> q \<noteq> Point 0 0)"
  shows "skip_above (pre @ q # rest) b (int (length pre)) = Some (int (length pre))"
  using assms vat_append_at [of pre q rest]
  by (subst skip_above.simps) auto

lemma torso_loop_stop:
  assumes "\<not> (q \<noteq> Point 0 0 \<and> px q < l)"
  shows "torso_loop (pre @ q # rest) l (int (length pre)) cr d sh best idx = Some (sh, best, idx)"
  using assms vat_append_at [of pre q rest]
  by (subst torso_loop.simps) auto

text \<open>One row of the band: the state after its last pixel.\<close>

lemma torso_loop_row:
  assumes "blk \<noteq> []" "\<forall>p \<in> set blk. px p = r \<and> p \<noteq> Point 0 0" "r < l"
      and "px q \<noteq> r" "px cr = r"
  shows "torso_loop (pre @ blk @ q # rest) l (int (length pre)) cr d sh best idx
         = torso_loop (pre @ blk @ q # rest) l (int (length pre + length blk)) q 0
             (if d + int (length blk) - 1 < sh then d + int (length blk) - 1 else sh)
             (if d + int (length blk) - 1 < sh then last blk else best)
             (if d + int (length blk) - 1 < sh then int (length pre + length blk) - 1 else idx)"
  using assms
proof (induction blk arbitrary: pre d)
  case Nil
  then show ?case by simp
next
  case outer: (Cons x xs)
  have x: "px x = r" "x \<noteq> Point 0 0" using outer.prems(2) by simp_all
  show ?case
  proof (cases xs)
    case Nil
    have "torso_loop (pre @ [x] @ q # rest) l (int (length pre)) cr d sh best idx
          = (if d < sh
             then torso_loop (pre @ [x] @ q # rest) l (int (length pre) + 1) q 0 d x
                    (int (length pre))
             else torso_loop (pre @ [x] @ q # rest) l (int (length pre) + 1) q 0 sh best idx)"
      using x outer.prems(3-5) vat_append_at [of pre x "q # rest"]
        vat_append_next [of pre x q rest]
      by (subst torso_loop.simps) simp
    then show ?thesis using Nil by (simp add: add.commute)
  next
    case (Cons y ys)
    have y: "px y = r" using outer.prems(2) Cons by simp
    have step: "torso_loop (pre @ (x # xs) @ q # rest) l (int (length pre)) cr d sh best idx
          = torso_loop (pre @ (x # xs) @ q # rest) l (int (length pre) + 1) cr (d + 1)
              sh best idx"
      using x y outer.prems(3-5) vat_append_at [of pre x "y # ys @ q # rest"]
        vat_append_next [of pre x y "ys @ q # rest"]
      unfolding Cons by (subst torso_loop.simps) simp
    have nonempty: "xs \<noteq> []" using Cons by simp
    have rest_ok: "\<forall>p \<in> set xs. px p = r \<and> p \<noteq> Point 0 0" using outer.prems(2) by simp
    note IH = outer.IH [OF nonempty rest_ok outer.prems(3-5), of "pre @ [x]" "d + 1"]
    have "int (length (pre @ [x])) = int (length pre) + 1" by simp
    with IH step nonempty show ?thesis by (simp add: add.commute add.left_commute)
  qed
qed

lemma row_pixels_length: "length (row_pixels (r, c, n)) = n"
  by (simp add: row_pixels_def)

lemma row_pixels_px: "p \<in> set (row_pixels (r, c, n)) \<Longrightarrow> px p = r"
  by (auto simp: row_pixels_def)

lemma row_pixels_Cons:
  "0 < n \<Longrightarrow> row_pixels (r, c, n) = Point r c # map (\<lambda>k. Point r (c + int k)) [1..<n]"
  by (simp add: row_pixels_def upt_conv_Cons)

lemma row_pixels_last: "0 < n \<Longrightarrow> last (row_pixels (r, c, n)) = Point r (c + int n - 1)"
proof -
  assume "0 < n"
  then obtain m where m: "n = Suc m" by (cases n) simp_all
  show ?thesis by (simp add: row_pixels_def m)
qed

lemma torso_loop_band:
  assumes "band \<noteq> []"
      and "\<forall>(r, c, n) \<in> set band. 0 < n \<and> 0 < r \<and> r < l"
      and "sorted_wrt (<) (map fst band)"
      and "px stop \<noteq> fst (last band)"
      and "\<not> (stop \<noteq> Point 0 0 \<and> px stop < l)"
      and "px cr = fst (hd band)"
  shows "\<exists>idx'. torso_loop (pre @ concat (map row_pixels band) @ stop # rest) l
                  (int (length pre)) cr 0 sh best idx
                = Some (fst (scan_band band (sh, best)), snd (scan_band band (sh, best)), idx')"
  using assms
proof (induction band arbitrary: pre cr sh best idx)
  case Nil
  then show ?case by simp
next
  case outer: (Cons row band)
  obtain r c n where row: "row = (r, c, n)" by (cases row)
  have n: "0 < n" and r: "0 < r" "r < l" using outer.prems(2) row by auto
  define blk where "blk = row_pixels (r, c, n)"
  have len: "length blk = n" by (simp add: blk_def row_pixels_length)
  have "blk \<noteq> []" using n len by auto
  moreover have "\<forall>p \<in> set blk. px p = r \<and> p \<noteq> Point 0 0"
  proof
    fix p assume "p \<in> set blk"
    then have "px p = r" unfolding blk_def by (rule row_pixels_px)
    with r(1) show "px p = r \<and> p \<noteq> Point 0 0" by auto
  qed
  ultimately have blk: "blk \<noteq> []" "\<forall>p \<in> set blk. px p = r \<and> p \<noteq> Point 0 0"
    by simp_all
  have cr: "px cr = r" using outer.prems(6) row by simp
  have lastb: "last blk = Point r (c + int n - 1)"
    using n by (simp add: blk_def row_pixels_last)
  define sh1 where "sh1 = (if int n - 1 < sh then int n - 1 else sh)"
  define best1 where "best1 = (if int n - 1 < sh then Point r (c + int n - 1) else best)"
  define idx1 where "idx1 = (if int n - 1 < sh then int (length pre + n) - 1 else idx)"
  have state: "scan_band (row # band) (sh, best) = scan_band band (sh1, best1)"
    by (simp add: row sh1_def best1_def)
  have row_step: "torso_loop (pre @ blk @ q # tail) l (int (length pre)) cr 0 sh best idx
          = torso_loop (pre @ blk @ q # tail) l (int (length (pre @ blk))) q 0 sh1 best1 idx1"
    if "px q \<noteq> r" for q tail
    using torso_loop_row [OF blk r(2) that cr, of pre tail 0 sh best idx]
    by (simp add: len lastb sh1_def best1_def idx1_def)
  show ?case
  proof (cases band)
    case Nil
    have stop: "px stop \<noteq> r" using outer.prems(4) Nil row by simp
    have "torso_loop (pre @ blk @ stop # rest) l (int (length pre)) cr 0 sh best idx
          = torso_loop ((pre @ blk) @ stop # rest) l (int (length (pre @ blk))) stop 0
              sh1 best1 idx1"
      using row_step [OF stop, of rest] by simp
    also have "\<dots> = Some (sh1, best1, idx1)"
      using outer.prems(5) by (rule torso_loop_stop)
    finally have "torso_loop (pre @ concat (map row_pixels (row # band)) @ stop # rest) l
                    (int (length pre)) cr 0 sh best idx = Some (sh1, best1, idx1)"
      using Nil row by (simp add: blk_def)
    moreover have "scan_band (row # band) (sh, best) = (sh1, best1)"
      using state Nil by simp
    ultimately show ?thesis by simp
  next
    case (Cons row2 more)
    obtain r2 c2 n2 where row2: "row2 = (r2, c2, n2)" by (cases row2)
    have n2: "0 < n2" using outer.prems(2) Cons row2 by auto
    have r2: "r < r2" using outer.prems(3) Cons row row2 by simp
    define q where "q = Point r2 c2"
    define tail where "tail = map (\<lambda>k. Point r2 (c2 + int k)) [1..<n2]
                              @ concat (map row_pixels more) @ stop # rest"
    have parts: "concat (map row_pixels band) @ stop # rest = q # tail"
      using Cons row2 row_pixels_Cons [OF n2, of r2 c2] by (simp add: q_def tail_def)
    have q: "px q \<noteq> r" using r2 by (simp add: q_def)
    have prems: "band \<noteq> []" "\<forall>(r, c, n) \<in> set band. 0 < n \<and> 0 < r \<and> r < l"
      "sorted_wrt (<) (map fst band)" "px stop \<noteq> fst (last band)" "px q = fst (hd band)"
      using outer.prems Cons row2 by (auto simp: q_def)
    from outer.IH [OF prems(1-4) outer.prems(5) prems(5), of "pre @ blk" sh1 best1 idx1]
    obtain idx' where ih:
      "torso_loop ((pre @ blk) @ concat (map row_pixels band) @ stop # rest) l
         (int (length (pre @ blk))) q 0 sh1 best1 idx1
       = Some (fst (scan_band band (sh1, best1)), snd (scan_band band (sh1, best1)), idx')"
      by blast
    have "torso_loop (pre @ blk @ q # tail) l (int (length pre)) cr 0 sh best idx
          = torso_loop (pre @ blk @ q # tail) l (int (length (pre @ blk))) q 0 sh1 best1 idx1"
      using q by (rule row_step)
    also have "pre @ blk @ q # tail = (pre @ blk) @ concat (map row_pixels band) @ stop # rest"
      using parts by simp
    finally have "torso_loop ((pre @ blk) @ concat (map row_pixels band) @ stop # rest) l
                    (int (length pre)) cr 0 sh best idx
       = Some (fst (scan_band band (sh1, best1)), snd (scan_band band (sh1, best1)), idx')"
      using ih by simp
    then have "torso_loop (pre @ concat (map row_pixels (row # band)) @ stop # rest) l
                    (int (length pre)) cr 0 sh best idx
       = Some (fst (scan_band band (sh1, best1)), snd (scan_band band (sh1, best1)), idx')"
      by (simp add: row blk_def)
    then show ?thesis unfolding state by blast
  qed
qed

lemma scan_band_arg_min:
  "band \<noteq> [] \<Longrightarrow>
   scan_band band (sh, best)
   = (case arg_min_list (\<lambda>(r, c, n). n) band of (r, c, n) \<Rightarrow>
        if int n - 1 < sh then (int n - 1, Point r (c + int n - 1)) else (sh, best))"
proof (induction band arbitrary: sh best)
  case Nil
  then show ?case by simp
next
  case (Cons row band)
  obtain r c n where row: "row = (r, c, n)" by (cases row)
  show ?case
  proof (cases band)
    case Nil
    then show ?thesis by (simp add: row)
  next
    case (Cons row2 more)
    then have ne: "band \<noteq> []" by simp
    obtain r' c' n' where m: "arg_min_list (\<lambda>(r, c, n). n) band = (r', c', n')"
      by (cases "arg_min_list (\<lambda>(r, c, n). n) band")
    have am: "arg_min_list (\<lambda>(r, c, n). n) (row # band) = (if n \<le> n' then row else (r', c', n'))"
      using m Cons by (simp add: row Let_def)
    show ?thesis
      using Cons.IH [OF ne] m am by (auto simp: row)
  qed
qed

lemma cdiv_nonneg: "0 \<le> a \<Longrightarrow> 0 < b \<Longrightarrow> cdiv a b = a div b"
  by (cases "a = 0") (simp_all add: cdiv_def)

lemma midpoint_from_right: "0 < n \<Longrightarrow> c + int n - 1 - cdiv (int n - 1) 2 = c + int n div 2"
  by (simp add: cdiv_nonneg)

lemma rows_above_band:
  assumes "\<forall>(r, c, n) \<in> set before. r < b \<and> 0 \<le> c \<and> (0 < r \<or> 0 < c)"
  shows "\<forall>p \<in> set (concat (map row_pixels before)). px p < b \<and> p \<noteq> Point 0 0"
proof
  fix p assume "p \<in> set (concat (map row_pixels before))"
  then obtain r c n k where row: "(r, c, n) \<in> set before" and p: "p = Point r (c + int k)"
    by (auto simp: row_pixels_def)
  from assms row have "r < b" "0 \<le> c" "0 < r \<or> 0 < c" by auto
  with p show "px p < b \<and> p \<noteq> Point 0 0" by auto
qed

lemma torso_midpoint_of_narrowest_row:
  fixes before band after :: "(int \<times> int \<times> nat) list"
  assumes sp: "sp = concat (map row_pixels (before @ band @ after)) @ replicate m (Point 0 0)"
      and m: "0 < m"
      and rws: "\<forall>(r, c, n) \<in> set (before @ band @ after).
                  0 < n \<and> n \<le> 1000 \<and> 0 \<le> c \<and> (0 < r \<or> 0 < c)"
      and ordered: "sorted_wrt (<) (map fst (before @ band @ after))"
      and above: "\<forall>(r, c, n) \<in> set before. r < px head + t"
      and inside: "\<forall>(r, c, n) \<in> set band. px head + t \<le> r \<and> r < max 48 (px head + 1)"
      and below: "\<forall>(r, c, n) \<in> set after. max 48 (px head + 1) \<le> r"
      and band: "band \<noteq> []"
      and t: "1 \<le> t"
      and head: "0 \<le> px head"
  shows "\<exists>idx. find_torso_feature sp t head 0 idx0
           = Some (case arg_min_list (\<lambda>(r, c, n). n) band of (r, c, n) \<Rightarrow>
                     Point (r + t) (c + int n div 2), idx)"
proof -
  define l where "l = (if 48 < px head then px head + 1 else 48)"
  obtain r1 c1 n1 more where b1: "band = (r1, c1, n1) # more"
    using band by (cases band) auto
  have "(r1, c1, n1) \<in> set (before @ band @ after)" using b1 by simp
  from bspec [OF rws this] have n1: "0 < n1" by simp
  have "(r1, c1, n1) \<in> set band" using b1 by simp
  from bspec [OF inside this]
  have r1: "px head + t \<le> r1" "r1 < max 48 (px head + 1)" by simp_all
  then have small: "px head < 48" using t by auto
  then have l: "l = max 48 (px head + 1)" by (auto simp: l_def)
  define start where "start = Point r1 c1"
  define pre where "pre = concat (map row_pixels before)"
  define rest1 where "rest1 = map (\<lambda>k. Point r1 (c1 + int k)) [1..<n1]
       @ concat (map row_pixels more) @ concat (map row_pixels after) @ replicate m (Point 0 0)"
  have sp1: "sp = pre @ start # rest1"
    using row_pixels_Cons [OF n1, of r1 c1]
    by (simp add: sp b1 pre_def start_def rest1_def)
  obtain stop rest2 where stop: "concat (map row_pixels after) @ replicate m (Point 0 0)
                                 = stop # rest2"
    using m by (cases "concat (map row_pixels after) @ replicate m (Point 0 0)") auto
  have sp2: "sp = pre @ concat (map row_pixels band) @ stop # rest2"
    using stop by (simp add: sp pre_def)
  have first: "vat sp 0 = Some (hd sp)"
    using sp1 by (cases pre) (simp_all add: vat_def)
  \<comment> \<open>the skip loop stops on the first pixel of the band\<close>
  have pre_ok: "\<forall>p \<in> set pre. px p < px head + t \<and> p \<noteq> Point 0 0"
  proof -
    have "\<forall>(r, c, n) \<in> set before. r < px head + t \<and> 0 \<le> c \<and> (0 < r \<or> 0 < c)"
    proof (intro ballI, clarify)
      fix r c n assume mem: "(r, c, n) \<in> set before"
      then have "(r, c, n) \<in> set (before @ band @ after)" by simp
      from bspec [OF rws this] bspec [OF above mem]
      show "r < px head + t \<and> 0 \<le> c \<and> (0 < r \<or> 0 < c)" by simp
    qed
    then show ?thesis unfolding pre_def by (rule rows_above_band)
  qed
  have "skip_above sp (px head + t) 0 = skip_above ([] @ pre @ start # rest1) (px head + t)
          (int (length ([] :: Point list)))"
    by (simp add: sp1)
  also have "\<dots> = skip_above ([] @ pre @ start # rest1) (px head + t)
                     (int (length ([] :: Point list) + length pre))"
    using pre_ok by (rule skip_above_block)
  also have "\<dots> = skip_above (pre @ start # rest1) (px head + t) (int (length pre))"
    by simp
  also have "\<dots> = Some (int (length pre))"
    using r1 by (intro skip_above_stop) (simp add: start_def)
  finally have skip: "skip_above sp (px head + t) 0 = Some (int (length pre))" .
  have at_start: "vat sp (int (length pre)) = Some start"
    unfolding sp1 by (rule vat_append_at)
  \<comment> \<open>the scan loop walks the rows of the band\<close>
  have band_ok: "\<forall>(r, c, n) \<in> set band. 0 < n \<and> 0 < r \<and> r < l"
  proof (intro ballI, clarify)
    fix r c n assume mem: "(r, c, n) \<in> set band"
    then have "(r, c, n) \<in> set (before @ band @ after)" by simp
    from bspec [OF rws this] bspec [OF inside mem] head t l
    show "0 < n \<and> 0 < r \<and> r < l" by simp
  qed
  have band_sorted: "sorted_wrt (<) (map fst band)"
    using ordered by (simp add: sorted_wrt_append)
  have last_in: "last band \<in> set band" using band by simp
  obtain rl cl nl where lastrow: "last band = (rl, cl, nl)" by (cases "last band")
  have rl: "0 < rl" "rl < l" using band_ok last_in lastrow by auto
  have stop_cases: "stop = Point 0 0 \<or> l \<le> px stop"
  proof (cases "concat (map row_pixels after)")
    case Nil
    with stop m show ?thesis by (cases m) auto
  next
    case (Cons a as)
    then have "stop = a" using stop by simp
    moreover have "a \<in> set (concat (map row_pixels after))" using Cons by simp
    then obtain r c n where mem: "(r, c, n) \<in> set after" and "px a = r"
      by (auto simp: row_pixels_def)
    ultimately show ?thesis using bspec [OF below mem] l by simp
  qed
  have stop1: "px stop \<noteq> fst (last band)"
    using stop_cases rl lastrow by auto
  have stop2: "\<not> (stop \<noteq> Point 0 0 \<and> px stop < l)"
    using stop_cases by auto
  have cr: "px start = fst (hd band)" by (simp add: start_def b1)
  from torso_loop_band [OF band band_ok band_sorted stop1 stop2 cr, of pre rest2 1000 start idx0]
  obtain idx where loop:
    "torso_loop sp l (int (length pre)) start 0 1000 start idx0
     = Some (fst (scan_band band (1000, start)), snd (scan_band band (1000, start)), idx)"
    unfolding sp2 by blast
  obtain r c n where best: "arg_min_list (\<lambda>(r, c, n). n) band = (r, c, n)"
    by (cases "arg_min_list (\<lambda>(r, c, n). n) band")
  have "(r, c, n) \<in> set band"
    using arg_min_list_in [OF band, of "\<lambda>(r, c, n). n"] best by simp
  then have "(r, c, n) \<in> set (before @ band @ after)" by simp
  from bspec [OF rws this] have n: "0 < n" "n \<le> 1000" by simp_all
  have scan: "scan_band band (1000, start) = (int n - 1, Point r (c + int n - 1))"
    using scan_band_arg_min [OF band, of 1000 start] best n by simp
  have "find_torso_feature sp t head 0 idx0
        = Some (Point (r + t) (c + int n - 1 - cdiv (int n - 1) 2), idx)"
    using first skip at_start loop scan
    by (simp add: find_torso_feature_def l_def [symmetric] Let_def)
  then show ?thesis
    using midpoint_from_right [OF n(1), of c] best by simp
qed

lemma row_pixels_Suc:
  "row_pixels (r, c, Suc n) = Point r c # row_pixels (r, c + 1, n)"
proof -
  have "map (\<lambda>k. Point r (c + int k)) [0..<Suc n]
        = Point r c # map (\<lambda>k. Point r (c + int k)) (map Suc [0..<n])"
    by (simp only: map_Suc_upt upt_conv_Cons [of 0 "Suc n"]) simp
  then show ?thesis by (simp add: row_pixels_def o_def add.assoc add.commute)
qed

lemma run_length_row: "run_length (row_pixels (r, c, n)) = n"
proof (induction n arbitrary: c)
  case 0
  then show ?case by (simp add: row_pixels_def)
next
  case (Suc n)
  show ?case
  proof (cases n)
    case 0
    then show ?thesis by (simp add: row_pixels_def)
  next
    case (Suc k)
    have "row_pixels (r, c, Suc n) = Point r c # Point r (c + 1) # row_pixels (r, c + 1 + 1, k)"
      by (simp add: row_pixels_Suc Suc)
    moreover have "run_length (row_pixels (r, c + 1, n)) = n" by (rule Suc.IH)
    ultimately show ?thesis by (simp add: row_pixels_Suc Suc)
  qed
qed

lemma rows_of_block:
  assumes "blk \<noteq> []" "\<forall>p \<in> set blk. px p = r" "rows_of ps = gs"
      and "gs = [] \<or> px (hd (hd gs)) \<noteq> r"
  shows "rows_of (blk @ ps) = blk # gs"
  using assms(1,2)
proof (induction blk)
  case Nil
  then show ?case by simp
next
  case (Cons x xs)
  show ?case
  proof (cases xs)
    case Nil
    with Cons.prems assms(3,4) show ?thesis by (cases gs) auto
  next
    case inner: (Cons y ys)
    then have "rows_of (xs @ ps) = xs # gs" using Cons by simp
    with Cons.prems inner show ?thesis by simp
  qed
qed

lemma row_pixels_hd: "0 < n \<Longrightarrow> hd (row_pixels (r, c, n)) = Point r c"
  by (simp add: row_pixels_Cons)

lemma rows_of_rows:
  assumes "\<forall>(r, c, n) \<in> set rws. 0 < n" "sorted_wrt (<) (map fst rws)"
  shows "rows_of (concat (map row_pixels rws)) = map row_pixels rws"
  using assms
proof (induction rws)
  case Nil
  then show ?case by simp
next
  case (Cons row rws)
  obtain r c n where row: "row = (r, c, n)" by (cases row)
  have n: "0 < n" using Cons.prems(1) row by simp
  have blk: "row_pixels (r, c, n) \<noteq> []" "\<forall>p \<in> set (row_pixels (r, c, n)). px p = r"
    using n row_pixels_length [of r c n] row_pixels_px [of _ r c n] by auto
  have ih: "rows_of (concat (map row_pixels rws)) = map row_pixels rws"
    using Cons by simp
  have next_row: "map row_pixels rws = [] \<or> px (hd (hd (map row_pixels rws))) \<noteq> r"
  proof (cases rws)
    case Nil
    then show ?thesis by simp
  next
    case inner: (Cons row2 more)
    obtain r2 c2 n2 where row2: "row2 = (r2, c2, n2)" by (cases row2)
    have "0 < n2" "r < r2" using Cons.prems inner row row2 by auto
    then show ?thesis using inner row2 by (simp add: row_pixels_hd)
  qed
  from rows_of_block [OF blk ih next_row] show ?case by (simp add: row)
qed

lemma arg_min_rows:
  "band \<noteq> [] \<Longrightarrow>
   arg_min_list run_length (map row_pixels band)
   = row_pixels (arg_min_list (\<lambda>(r, c, n). n) band)"
proof (induction band)
  case Nil
  then show ?case by simp
next
  case (Cons row band)
  obtain r c n where row: "row = (r, c, n)" by (cases row)
  show ?case
  proof (cases band)
    case Nil
    then show ?thesis by simp
  next
    case inner: (Cons row2 more)
    then have ih: "arg_min_list run_length (map row_pixels band)
                   = row_pixels (arg_min_list (\<lambda>(r, c, n). n) band)"
      using Cons by simp
    obtain r' c' n' where m: "arg_min_list (\<lambda>(r, c, n). n) band = (r', c', n')"
      by (cases "arg_min_list (\<lambda>(r, c, n). n) band")
    show ?thesis
      using ih m inner by (simp add: row Let_def run_length_row)
  qed
qed

lemma pixels_not_terminator:
  assumes "\<forall>(r, c, n) \<in> set rws. 0 \<le> c \<and> (0 < r \<or> 0 < c)"
  shows "\<forall>p \<in> set (concat (map row_pixels rws)). p \<noteq> Point 0 0"
proof
  fix p assume "p \<in> set (concat (map row_pixels rws))"
  then obtain r c n k where row: "(r, c, n) \<in> set rws" and p: "p = Point r (c + int k)"
    by (auto simp: row_pixels_def)
  from bspec [OF assms row] have "0 \<le> c" "0 < r \<or> 0 < c" by simp_all
  with p show "p \<noteq> Point 0 0" by auto
qed

lemma takeWhile_terminated:
  "\<forall>p \<in> set xs. p \<noteq> z \<Longrightarrow> takeWhile (\<lambda>p. p \<noteq> z) (xs @ z # ys) = xs"
  by (induction xs) simp_all

lemma spec_torso_rows:
  fixes before band after :: "(int \<times> int \<times> nat) list"
  assumes sp: "sp = concat (map row_pixels (before @ band @ after)) @ replicate m (Point 0 0)"
      and m: "0 < m"
      and rws: "\<forall>(r, c, n) \<in> set (before @ band @ after).
                  0 < n \<and> n \<le> 1000 \<and> 0 \<le> c \<and> (0 < r \<or> 0 < c)"
      and ordered: "sorted_wrt (<) (map fst (before @ band @ after))"
      and above: "\<forall>(r, c, n) \<in> set before. r < px head + t"
      and inside: "\<forall>(r, c, n) \<in> set band. px head + t \<le> r \<and> r < max 48 (px head + 1)"
      and below: "\<forall>(r, c, n) \<in> set after. max 48 (px head + 1) \<le> r"
      and band: "band \<noteq> []"
  shows "spec_torso sp t head
         = Some (case arg_min_list (\<lambda>(r, c, n). n) band of (r, c, n) \<Rightarrow>
                   Point (r + t) (c + int n div 2))"
proof -
  let ?all = "before @ band @ after"
  let ?Q = "\<lambda>g. px head + t \<le> px (hd g) \<and> px (hd g) < max 48 (px head + 1)"
  have pos: "\<forall>(r, c, n) \<in> set ?all. 0 < n"
  proof (intro ballI, clarify)
    fix r c n assume "(r, c, n) \<in> set ?all"
    from bspec [OF rws this] show "0 < n" by simp
  qed
  have "\<forall>(r, c, n) \<in> set ?all. 0 \<le> c \<and> (0 < r \<or> 0 < c)"
  proof (intro ballI, clarify)
    fix r c n assume "(r, c, n) \<in> set ?all"
    from bspec [OF rws this] show "0 \<le> c \<and> (0 < r \<or> 0 < c)" by simp
  qed
  then have nz: "\<forall>p \<in> set (concat (map row_pixels ?all)). p \<noteq> Point 0 0"
    by (rule pixels_not_terminator)
  obtain k where k: "m = Suc k" using m by (cases m) simp_all
  have "sp = concat (map row_pixels ?all) @ Point 0 0 # replicate k (Point 0 0)"
    unfolding sp k by simp
  then have interior: "takeWhile (\<lambda>p. p \<noteq> Point 0 0) sp = concat (map row_pixels ?all)"
    using takeWhile_terminated [OF nz] by simp
  have groups: "rows_of (concat (map row_pixels ?all)) = map row_pixels ?all"
    using pos ordered by (rule rows_of_rows)
  have sel: "filter ?Q (map row_pixels xs)
             = map row_pixels (filter (\<lambda>(r, c, n). px head + t \<le> r
                                               \<and> r < max 48 (px head + 1)) xs)"
    if "set xs \<subseteq> set ?all" for xs
    using that
  proof (induction xs)
    case Nil
    then show ?case by simp
  next
    case (Cons x xs)
    obtain r c n where x: "x = (r, c, n)" by (cases x)
    have "(r, c, n) \<in> set ?all" using Cons.prems x by auto
    from bspec [OF pos this] have "0 < n" by simp
    then show ?case using Cons by (simp add: x row_pixels_hd)
  qed
  have "\<forall>x \<in> set before. \<not> (case x of (r, c, n) \<Rightarrow>
            px head + t \<le> r \<and> r < max 48 (px head + 1))"
  proof
    fix x assume mem: "x \<in> set before"
    obtain r c n where x: "x = (r, c, n)" by (cases x)
    from bspec [OF above mem]
    show "\<not> (case x of (r, c, n) \<Rightarrow> px head + t \<le> r \<and> r < max 48 (px head + 1))"
      by (simp add: x)
  qed
  then have fb: "filter ?Q (map row_pixels before) = []"
    using sel [of before] by (simp add: filter_empty_conv)
  have "\<forall>x \<in> set after. \<not> (case x of (r, c, n) \<Rightarrow>
            px head + t \<le> r \<and> r < max 48 (px head + 1))"
  proof
    fix x assume mem: "x \<in> set after"
    obtain r c n where x: "x = (r, c, n)" by (cases x)
    from bspec [OF below mem]
    show "\<not> (case x of (r, c, n) \<Rightarrow> px head + t \<le> r \<and> r < max 48 (px head + 1))"
      by (auto simp: x)
  qed
  moreover have "set after \<subseteq> set ?all" by auto
  ultimately have fa: "filter ?Q (map row_pixels after) = []"
    using sel [of after] by (simp add: filter_empty_conv)
  have "\<forall>x \<in> set band. (case x of (r, c, n) \<Rightarrow>
            px head + t \<le> r \<and> r < max 48 (px head + 1))"
    using inside by simp
  moreover have "set band \<subseteq> set ?all" by auto
  ultimately have fm: "filter ?Q (map row_pixels band) = map row_pixels band"
    using sel [of band] by (simp add: filter_id_conv)
  have chosen: "filter ?Q (rows_of (takeWhile (\<lambda>p. p \<noteq> Point 0 0) sp)) = map row_pixels band"
    unfolding interior groups using fb fa fm by simp
  obtain r c n where best: "arg_min_list (\<lambda>(r, c, n). n) band = (r, c, n)"
    by (cases "arg_min_list (\<lambda>(r, c, n). n) band")
  have "(r, c, n) \<in> set band"
    using arg_min_list_in [OF band, of "\<lambda>(r, c, n). n"] best by simp
  then have "(r, c, n) \<in> set ?all" by simp
  from bspec [OF pos this] have n: "0 < n" by simp
  show ?thesis
    unfolding spec_torso_def Let_def chosen
    using band arg_min_rows [OF band] best n
    by (simp add: row_pixels_hd run_length_row)
qed

lemma neck_vector_list:
  "neck_vector = [Point 10 30, Point 10 31, Point 10 32,
                  Point 20 10, Point 20 11, Point 20 12, Point 20 13, Point 20 14,
                  Point 21 12, Point 21 13, Point 22 9, Point 22 10,
                  Point 50 5, Point 50 6, Point 50 7, Point 50 8]
                 @ replicate 8176 (Point 0 0)"
  by (simp add: neck_vector_def neck_rows_def row_pixels_def upt_rec numeral_eq_Suc)

lemma neck_torso: "find_torso_feature neck_vector 5 (Point 15 30) 0 0 = Some (Point 26 13, 9)"
  unfolding neck_vector_list
  by (simp add: find_torso_feature_def skip_above.simps torso_loop.simps vat_Cons vat_replicate
      cdiv_def)

lemma gap_torso: "find_torso_feature gap_vector 5 (Point 15 30) 0 0 = Some (Point 25 39, 5)"
  by (simp add: gap_vector_def find_torso_feature_def skip_above.simps torso_loop.simps
      vat_Cons vat_replicate cdiv_def)

lemma gap_spec: "spec_torso gap_vector 5 (Point 15 30) = Some (Point 25 11)"
  by (simp add: gap_vector_def spec_torso_def Let_def upt_rec numeral_eq_Suc)

text \<open>
  Claim C3, as the code has it. For every row-major interior pixel list whose rows are
  contiguous runs of at most 1000 pixels, with at least one row in the band
  \<open>head.row + threshold \<le> row < max(48, head.row + 1)\<close>, the torso detector (threshold at
  least 1, scan started at index 0) takes the number of pixels of each row of the band as
  its run length, selects the first row with the smallest run length and returns
  \<open>(row + threshold, left_col + run/2)\<close>; this is the point the specification describes.
\<close>

theorem torso_refines_spec_on_contiguous_rows:
  fixes before band after :: "(int \<times> int \<times> nat) list"
  assumes "sp = concat (map row_pixels (before @ band @ after)) @ replicate m (Point 0 0)"
      and "0 < m"
      and "\<forall>(r, c, n) \<in> set (before @ band @ after).
             0 < n \<and> n \<le> 1000 \<and> 0 \<le> c \<and> (0 < r \<or> 0 < c)"
      and "sorted_wrt (<) (map fst (before @ band @ after))"
      and "\<forall>(r, c, n) \<in> set before. r < px head + t"
      and "\<forall>(r, c, n) \<in> set band. px head + t \<le> r \<and> r < max 48 (px head + 1)"
      and "\<forall>(r, c, n) \<in> set after. max 48 (px head + 1) \<le> r"
      and "band \<noteq> []"
      and "1 \<le> t"
      and "0 \<le> px head"
  shows "(\<exists>idx. find_torso_feature sp t head 0 idx0
            = Some (case arg_min_list (\<lambda>(r, c, n). n) band of (r, c, n) \<Rightarrow>
                      Point (r + t) (c + int n div 2), idx))
       \<and> spec_torso sp t head
            = Some (case arg_min_list (\<lambda>(r, c, n). n) band of (r, c, n) \<Rightarrow>
                      Point (r + t) (c + int n div 2))"
  using torso_midpoint_of_narrowest_row [OF assms] spec_torso_rows [OF assms(1-8)]
  by simp

theorem torso_refines_spec_on_contiguous_rows_witness:
  "arg_min_list (\<lambda>(r, c, n). n) neck_rows = (21, 12, 2)
   \<and> find_torso_feature neck_vector 5 (Point 15 30) 0 0 = Some (Point 26 13, 9)
   \<and> spec_torso neck_vector 5 (Point 15 30) = Some (Point 26 13)"
proof -
  have a: "arg_min_list (\<lambda>(r, c, n). n) neck_rows = (21, 12, 2)"
    by (simp add: neck_rows_def)
  have h: "neck_vector = concat (map row_pixels ([(10, 30, 3)] @ neck_rows @ [(50, 5, 4)]))
                          @ replicate 8176 (Point 0 0)"
    "(0::nat) < 8176"
    "\<forall>(r, c, n) \<in> set ([(10, 30, 3)] @ neck_rows @ [(50, 5, 4)]).
       0 < n \<and> n \<le> 1000 \<and> 0 \<le> c \<and> (0 < r \<or> 0 < c)"
    "sorted_wrt (<) (map fst ([(10, 30, 3)] @ neck_rows @ [(50, 5, 4)]))"
    "\<forall>(r, c, n) \<in> set [(10, 30, 3)]. r < px (Point 15 30) + 5"
    "\<forall>(r, c, n) \<in> set neck_rows. px (Point 15 30) + 5 \<le> r \<and> r < max 48 (px (Point 15 30) + 1)"
    "\<forall>(r, c, n) \<in> set [(50, 5, 4)]. max 48 (px (Point 15 30) + 1) \<le> r"
    "neck_rows \<noteq> []" "(1::int) \<le> 5" "0 \<le> px (Point 15 30)"
    by (simp_all add: neck_vector_def neck_rows_def)
  from torso_refines_spec_on_contiguous_rows [OF h, of 0] a neck_torso
  show ?thesis by simp
qed

text \<open>
  The claim as it is written fails on a row with a gap: the code counts the pixels of the
  row, whatever their columns, and measures half the count back from the last pixel.
  Row 20 of \<open>gap_vector\<close> has its pixels in columns 10, 11 and 40; the code returns column
  39, which is no pixel of the row, where the specification's words give column 11.
\<close>

theorem torso_gap_row_counterexample:
  "find_head_feature gap_vector 5 0 = Some (Point 15 30, 0)
   \<and> find_torso_feature gap_vector 5 (Point 15 30) 0 0 = Some (Point 25 39, 5)
   \<and> spec_torso gap_vector 5 (Point 15 30) = Some (Point 25 11)
   \<and> Point 25 39 \<noteq> Point 25 11"
  using gap_torso gap_spec
  by (simp add: gap_vector_def find_head_feature_def head_loop.simps vat_Cons vat_replicate)


end
